theory Spec2Isabelle
  imports Main "HOL-Library.Sublist"
begin

section \<open>Choices, errors and keys\<close>

text \<open>
  The selection prompts of \<^verbatim>\<open>asky\<close>: \<^verbatim>\<open>singleSelect.Render\<close> and
  \<^verbatim>\<open>multiSelect.Render\<close>. A Go \<^verbatim>\<open>string\<close> is a sequence of bytes, which is what
  \<^typ>\<open>string\<close> is here. A Go \<^verbatim>\<open>int\<close> is modelled as \<^typ>\<open>int\<close>, without the
  wrap-around at 64 bits: the cursor and the window are between 0 and the length of a
  slice, and the page size is at most that length, so that a sum or difference of them
  leaves the 64-bit range only for a configured page size next to the least 64-bit
  integer.
\<close>

record Choice =
  Value :: string
  Label :: string
  Disabled :: bool

text \<open>The zero value \<^verbatim>\<open>Choice{}\<close>.\<close>

definition Choice0 :: Choice where
  "Choice0 = \<lparr>Value = [], Label = [], Disabled = False\<rparr>"

text \<open>
  The four error values of \<^verbatim>\<open>asky_errors.go\<close>, and one more for an error that
  \<^verbatim>\<open>keyboard.Listen\<close> passes through from the key source.
\<close>

datatype error =
    ErrInterrupted
  | ErrTerminalTooSmall
  | ErrNoSelectionChoices
  | ErrInvalidSelectionCount
  | ErrKeyboard

text \<open>The key codes the two callbacks switch on; every other code is \<open>OtherKey\<close>.\<close>

datatype KeyCode =
    CtrlC | Up | Down | Left | Right | Tab | Escape | Enter | Space | Backspace
  | RuneKey | OtherKey

record Key =
  Code :: KeyCode
  Runes :: "int list"

text \<open>What the key source delivers: a key, or an error of its own.\<close>

datatype event = Pressed Key | SourceError

section \<open>Strings: the library functions the prompts call\<close>

text \<open>
  \<^verbatim>\<open>string(r)\<close> for a rune \<^verbatim>\<open>r\<close>: its UTF-8 encoding, and the encoding of U+FFFD
  for a value that is no Unicode scalar value.
\<close>

definition byte :: "int \<Rightarrow> char" where
  "byte n = char_of (nat n)"

definition runeString :: "int \<Rightarrow> string" where
  "runeString r =
     (if 0 \<le> r \<and> r < 128 then [byte r]
      else if 0 \<le> r \<and> r < 2048 then [byte (192 + r div 64), byte (128 + r mod 64)]
      else if r < 0 \<or> 1114111 < r \<or> (55296 \<le> r \<and> r \<le> 57343)
        then [byte 239, byte 191, byte 189]
      else if r < 65536
        then [byte (224 + r div 4096), byte (128 + (r div 64) mod 64), byte (128 + r mod 64)]
      else [byte (240 + r div 262144), byte (128 + (r div 4096) mod 64),
            byte (128 + (r div 64) mod 64), byte (128 + r mod 64)])"

text \<open>
  \<^verbatim>\<open>utf8.DecodeRuneInString\<close>, on the bytes as numbers: the rune at the head of a
  string and its width in bytes. The first byte gives the size of the encoding and the
  range of the second byte (the table \<^verbatim>\<open>first\<close> and \<^verbatim>\<open>acceptRanges\<close>); a byte that
  starts no well-formed encoding is the rune U+FFFD of width 1.
\<close>

definition RuneError :: int where
  "RuneError = 65533"

definition acceptLo :: "nat \<Rightarrow> nat" where
  "acceptLo b0 = (if b0 = 224 then 160 else if b0 = 240 then 144 else 128)"

definition acceptHi :: "nat \<Rightarrow> nat" where
  "acceptHi b0 = (if b0 = 237 then 159 else if b0 = 244 then 143 else 191)"

fun decodeBytes :: "nat list \<Rightarrow> int \<times> nat" where
  "decodeBytes [] = (RuneError, 0)"
| "decodeBytes (b0 # bs) =
     (if b0 < 128 then (int b0, 1)
      else if b0 < 194 \<or> 244 < b0 then (RuneError, 1)
      else if b0 < 224 then
        (case bs of
           b1 # _ \<Rightarrow>
             if b1 < acceptLo b0 \<or> acceptHi b0 < b1 then (RuneError, 1)
             else (int (b0 mod 32 * 64 + b1 mod 64), 2)
         | _ \<Rightarrow> (RuneError, 1))
      else if b0 < 240 then
        (case bs of
           b1 # b2 # _ \<Rightarrow>
             if b1 < acceptLo b0 \<or> acceptHi b0 < b1 then (RuneError, 1)
             else if b2 < 128 \<or> 191 < b2 then (RuneError, 1)
             else (int (b0 mod 16 * 4096 + b1 mod 64 * 64 + b2 mod 64), 3)
         | _ \<Rightarrow> (RuneError, 1))
      else
        (case bs of
           b1 # b2 # b3 # _ \<Rightarrow>
             if b1 < acceptLo b0 \<or> acceptHi b0 < b1 then (RuneError, 1)
             else if b2 < 128 \<or> 191 < b2 then (RuneError, 1)
             else if b3 < 128 \<or> 191 < b3 then (RuneError, 1)
             else (int (b0 mod 8 * 262144 + b1 mod 64 * 4096 + b2 mod 64 * 64 + b3 mod 64), 4)
         | _ \<Rightarrow> (RuneError, 1)))"

definition decodeRune :: "string \<Rightarrow> int \<times> nat" where
  "decodeRune s = decodeBytes (map of_char s)"

text \<open>
  The runes of a string as \<^verbatim>\<open>for _, c := range s\<close> yields them: the rune at the
  current byte, then the rest of its bytes is skipped (\<open>k\<close> counts the bytes still to
  skip).
\<close>

fun runesFrom :: "nat \<Rightarrow> string \<Rightarrow> int list" where
  "runesFrom k [] = []"
| "runesFrom 0 (c # cs) =
     (case decodeRune (c # cs) of (r, width) \<Rightarrow> r # runesFrom (width - 1) cs)"
| "runesFrom (Suc k) (c # cs) = runesFrom k cs"

definition decodeRunes :: "string \<Rightarrow> int list" where
  "decodeRunes s = runesFrom 0 s"

text \<open>
  \<^verbatim>\<open>strings.Map(mapping, s)\<close>: every rune of \<open>s\<close> is mapped and written in UTF-8, and
  a rune mapped to a negative value is dropped.
\<close>

definition Map :: "(int \<Rightarrow> int) \<Rightarrow> string \<Rightarrow> string" where
  "Map mapping s =
     concat (map (\<lambda>c. let r = mapping c in if r \<ge> 0 then runeString r else [])
       (decodeRunes s))"

text \<open>
  \<^verbatim>\<open>unicode.ToLower\<close>: written out for the ASCII runes; for any other rune it looks
  the lower case up in the tables of the Unicode package, which are not part of this
  repository: the lookup is the parameter \<open>uni\<close>.
\<close>

definition unicodeToLower :: "(int \<Rightarrow> int) \<Rightarrow> int \<Rightarrow> int" where
  "unicodeToLower uni r =
     (if r \<le> 127 then (if 65 \<le> r \<and> r \<le> 90 then r + 32 else r) else uni r)"

text \<open>
  \<^verbatim>\<open>strings.ToLower\<close>: a string of ASCII bytes only is lowered byte by byte (and
  returned as it is when it has no upper-case letter); any other string is mapped rune
  by rune with \<^verbatim>\<open>unicode.ToLower\<close>.
\<close>

definition isASCII :: "string \<Rightarrow> bool" where
  "isASCII s = list_all (\<lambda>c. (of_char c :: nat) < 128) s"

definition isUpper :: "char \<Rightarrow> bool" where
  "isUpper c = (65 \<le> (of_char c :: nat) \<and> (of_char c :: nat) \<le> 90)"

definition lowerByte :: "char \<Rightarrow> char" where
  "lowerByte c = (if isUpper c then char_of ((of_char c :: nat) + 32) else c)"

definition ToLower :: "(int \<Rightarrow> int) \<Rightarrow> string \<Rightarrow> string" where
  "ToLower uni s =
     (if isASCII s then (if list_ex isUpper s then map lowerByte s else s)
      else Map (unicodeToLower uni) s)"

text \<open>\<^verbatim>\<open>strings.Contains(s, substr)\<close>: \<open>substr\<close> occurs in \<open>s\<close> at some offset.\<close>

fun hasPrefix :: "string \<Rightarrow> string \<Rightarrow> bool" where
  "hasPrefix s [] = True"
| "hasPrefix [] (p # ps) = False"
| "hasPrefix (c # cs) (p # ps) = (c = p \<and> hasPrefix cs ps)"

fun Contains :: "string \<Rightarrow> string \<Rightarrow> bool" where
  "Contains [] substr = (substr = [])"
| "Contains (c # cs) substr = (hasPrefix (c # cs) substr \<or> Contains cs substr)"

text \<open>\<^verbatim>\<open>strconv.Itoa\<close>.\<close>

definition digit :: "nat \<Rightarrow> char" where
  "digit d = char_of (48 + d)"

function natString :: "nat \<Rightarrow> string" where
  "natString n = (if n < 10 then [digit n] else natString (n div 10) @ [digit (n mod 10)])"
  by pat_completeness auto
termination
  by (relation "measure id") auto

declare natString.simps [simp del]

definition Itoa :: "int \<Rightarrow> string" where
  "Itoa i = (if i < 0 then CHR ''-'' # natString (nat (- i)) else natString (nat i))"

section \<open>Filtering\<close>

text \<open>
  \<^verbatim>\<open>filterChoices\<close> (the same closure in both prompts): the loop appends each choice
  whose lowered label contains the lowered query.
\<close>

fun filterLoop :: "(int \<Rightarrow> int) \<Rightarrow> string \<Rightarrow> Choice list \<Rightarrow> Choice list \<Rightarrow> Choice list" where
  "filterLoop uni query [] filtered = filtered"
| "filterLoop uni query (choice # rest) filtered =
     filterLoop uni query rest
       (if Contains (ToLower uni (Label choice)) query then filtered @ [choice] else filtered)"

definition filterChoices :: "(int \<Rightarrow> int) \<Rightarrow> Choice list \<Rightarrow> string \<Rightarrow> Choice list" where
  "filterChoices uni choices query =
     (if query = [] then choices else filterLoop uni (ToLower uni query) choices [])"

text \<open>
  The specification's reading of a match, in its own words: the label has a substring
  that equals the query up to the case of its letters.
\<close>

definition caseInsensitiveSubstring :: "string \<Rightarrow> string \<Rightarrow> bool" where
  "caseInsensitiveSubstring query label =
     (\<exists>ps m ss. label = ps @ m @ ss \<and> map lowerByte m = map lowerByte query)"

text \<open>
  The same reading over characters instead of bytes. A character is a Unicode scalar
  value; a string of characters is written as the UTF-8 encodings of its characters, one
  after the other; a continuation byte is one that starts no encoding. The lower-case
  table keeps characters when it maps every scalar value to a scalar value. A label
  matches a query when its characters, as \<^verbatim>\<open>range\<close> reads them, have a run that equals
  the characters of the query up to \<^verbatim>\<open>unicode.ToLower\<close>.
\<close>

definition validRune :: "int \<Rightarrow> bool" where
  "validRune r = (0 \<le> r \<and> r \<le> 1114111 \<and> \<not> (55296 \<le> r \<and> r \<le> 57343))"

definition encodeRunes :: "int list \<Rightarrow> string" where
  "encodeRunes rs = concat (map runeString rs)"

definition continuation :: "char \<Rightarrow> bool" where
  "continuation c = (128 \<le> (of_char c :: nat) \<and> (of_char c :: nat) < 192)"

definition keepsRunes :: "(int \<Rightarrow> int) \<Rightarrow> bool" where
  "keepsRunes uni = (\<forall>r. validRune r \<longrightarrow> validRune (uni r))"

definition caseInsensitiveRunes :: "(int \<Rightarrow> int) \<Rightarrow> string \<Rightarrow> string \<Rightarrow> bool" where
  "caseInsensitiveRunes uni query label =
     (\<exists>ps m ss. decodeRunes label = ps @ m @ ss \<and>
        map (unicodeToLower uni) m = map (unicodeToLower uni) (decodeRunes query))"

section \<open>Terminal and output\<close>

text \<open>
  \<^verbatim>\<open>getTermDimensions\<close> returns what \<^verbatim>\<open>term.GetSize\<close> reports: a width, a
  height and whether the call failed. The terminal is outside the program, so the three
  values are an input of the model.
\<close>

record termDimensions =
  termWidth :: int
  termHeight :: int
  termErr :: bool

text \<open>
  What the prompts write to the terminal, kept as a log of events. A \<open>Frame\<close> is one
  call of \<^verbatim>\<open>redraw(cursor, start, end)\<close>; the text of the frame is not modelled.
\<close>

datatype out_event =
    NewLine
  | CursorUp int
  | HideSaveCursor
  | Frame int int int
  | ResetState

definition ansiCursorUp :: "int \<Rightarrow> out_event list" where
  "ansiCursorUp n = (if n > 0 then [CursorUp n] else [])"

text \<open>\<^verbatim>\<open>makeSpace\<close> drops the error of \<^verbatim>\<open>getTermDimensions\<close> and looks at the sizes only.\<close>

definition makeSpace :: "int \<Rightarrow> termDimensions \<Rightarrow> out_event list \<times> error option" where
  "makeSpace lines t =
     (if termHeight t < lines \<or> termWidth t < 50 then ([], Some ErrTerminalTooSmall)
      else (replicate (nat lines) NewLine @ ansiCursorUp lines, None))"

section \<open>Session state shared by both prompts\<close>

text \<open>
  The local variables of \<^verbatim>\<open>Render\<close>, which its closures capture and update. Both
  prompts declare the same ones, and their closures \<^verbatim>\<open>resetCursorAfterFilter\<close>,
  \<^verbatim>\<open>navigateUp\<close> and \<^verbatim>\<open>navigateDown\<close> are the same text.
\<close>

record session =
  interrupted :: bool
  searchQuery :: string
  searchMode :: bool
  filteredChoices :: "Choice list"
  pageSize :: int
  cursorIdx :: int
  startIdx :: int
  endIdx :: int
  valMessage :: string
  stdOutput :: "out_event list"

text \<open>How a step of the prompt ends: the loop goes on, the callback asked to stop, the
  key source failed, or an index was out of range (a Go panic).\<close>

datatype 'a flow = Continue 'a | Stop 'a | Failed 'a | Panic 'a

fun flowState :: "'a flow \<Rightarrow> 'a" where
  "flowState (Continue s) = s"
| "flowState (Stop s) = s"
| "flowState (Failed s) = s"
| "flowState (Panic s) = s"

text \<open>A slice read \<^verbatim>\<open>xs[i]\<close>: \<open>None\<close> where Go panics.\<close>

definition at :: "'a list \<Rightarrow> int \<Rightarrow> 'a option" where
  "at xs i = (if 0 \<le> i \<and> i < int (length xs) then Some (xs ! nat i) else None)"

definition resetCursorAfterFilter :: "'a session_scheme \<Rightarrow> 'a session_scheme" where
  "resetCursorAfterFilter s =
     (if filteredChoices s = [] then s\<lparr>cursorIdx := 0, startIdx := 0, endIdx := 0\<rparr>
      else
        let n = int (length (filteredChoices s));
            s1 = (if cursorIdx s \<ge> n then s\<lparr>cursorIdx := n - 1\<rparr> else s);
            s2 = (if cursorIdx s1 < startIdx s1 then s1\<lparr>startIdx := cursorIdx s1\<rparr> else s1);
            s3 = (if cursorIdx s2 \<ge> startIdx s2 + pageSize s2
                  then s2\<lparr>startIdx := max 0 (cursorIdx s2 - pageSize s2 + 1)\<rparr> else s2)
        in s3\<lparr>endIdx := min (startIdx s3 + pageSize s3) n\<rparr>)"

definition navigateUp :: "'a session_scheme \<Rightarrow> 'a session_scheme" where
  "navigateUp s =
     (if cursorIdx s > 0 then
        let s1 = s\<lparr>cursorIdx := cursorIdx s - 1\<rparr>
        in if cursorIdx s1 < startIdx s1
           then s1\<lparr>startIdx := cursorIdx s1,
                   endIdx := min (cursorIdx s1 + pageSize s1) (int (length (filteredChoices s1)))\<rparr>
           else s1
      else s)"

definition navigateDown :: "'a session_scheme \<Rightarrow> 'a session_scheme" where
  "navigateDown s =
     (if cursorIdx s < int (length (filteredChoices s)) - 1 then
        let s1 = s\<lparr>cursorIdx := cursorIdx s + 1\<rparr>
        in if cursorIdx s1 \<ge> endIdx s1
           then s1\<lparr>endIdx := cursorIdx s1 + 1,
                   startIdx := max 0 (cursorIdx s1 + 1 - pageSize s1)\<rparr>
           else s1
      else s)"

text \<open>
  \<^verbatim>\<open>redraw\<close> reads \<^verbatim>\<open>filteredChoices[i]\<close> for every \<open>i\<close> from \<open>start\<close> up to
  \<open>end\<close>, and panics when one of them is outside the slice.
\<close>

definition redraw :: "'a session_scheme \<Rightarrow> 'a session_scheme flow" where
  "redraw s =
     (if startIdx s < endIdx s \<and>
         (startIdx s < 0 \<or> int (length (filteredChoices s)) < endIdx s)
      then Panic s
      else Continue (s\<lparr>stdOutput := stdOutput s @ [Frame (cursorIdx s) (startIdx s) (endIdx s)]\<rparr>))"

text \<open>
  \<^verbatim>\<open>keyboard.Listen(callback)\<close>: the callback runs on each key until it asks to stop.
  A source that has delivered all its events and no stop leaves the prompt waiting for
  the next key, which is \<open>Continue\<close>.
\<close>

fun listen :: "(Key \<Rightarrow> 's \<Rightarrow> 's flow) \<Rightarrow> 's \<Rightarrow> event list \<Rightarrow> 's flow" where
  "listen callback s [] = Continue s"
| "listen callback s (SourceError # es) = Failed s"
| "listen callback s (Pressed k # es) =
     (case callback k s of Continue s' \<Rightarrow> listen callback s' es | r \<Rightarrow> r)"

text \<open>What \<^verbatim>\<open>Render\<close> gives its caller: a returned pair (the error, or the value),
  or no return yet, or a panic.\<close>

datatype 'a outcome = Returns "error + 'a" | Waiting | Panics

section \<open>The two prompt structs\<close>

text \<open>
  The fields of \<^verbatim>\<open>singleSelect\<close> and \<^verbatim>\<open>multiSelect\<close> that \<^verbatim>\<open>Render\<close> computes with
  (theme, style, texts and markers only colour the frames). The field \<^verbatim>\<open>pageSize\<close> of
  the structs is \<open>pageSizeCfg\<close> here, since \<^verbatim>\<open>Render\<close> has a local of that name.
\<close>

record prompt =
  choices :: "Choice list"
  optional :: bool
  pageSizeCfg :: int

record singleSelect = prompt +
  defaultChoice :: int
  selectedChoice :: Choice

record multiSelect = prompt +
  defaultChoices :: "int list"
  minSelectedCount :: int
  maxSelectedCount :: int
  selectedChoices :: "Choice list"

record ss_state = session +
  ss :: singleSelect

record ms_state = session +
  ms :: multiSelect
  minRequired :: int
  maxAllowed :: int

section \<open>Single select\<close>

definition ss_search :: "(int \<Rightarrow> int) \<Rightarrow> string \<Rightarrow> ss_state \<Rightarrow> ss_state" where
  "ss_search uni q s =
     resetCursorAfterFilter
       (s\<lparr>searchQuery := q, filteredChoices := filterChoices uni (choices (ss s)) q\<rparr>)"

definition ss_space :: "ss_state \<Rightarrow> ss_state flow" where
  "ss_space s =
     (if filteredChoices s = [] then redraw (s\<lparr>valMessage := ''No choices available''\<rparr>)
      else case at (filteredChoices s) (cursorIdx s) of
        None \<Rightarrow> Panic s
      | Some currentChoice \<Rightarrow>
          if Disabled currentChoice
          then redraw (s\<lparr>valMessage := ''Cannot select a disabled choice''\<rparr>)
          else if Value (selectedChoice (ss s)) = Value currentChoice
          then redraw (s\<lparr>ss := (ss s)\<lparr>selectedChoice := Choice0\<rparr>, valMessage := []\<rparr>)
          else redraw (s\<lparr>ss := (ss s)\<lparr>selectedChoice := currentChoice\<rparr>, valMessage := []\<rparr>))"

definition ss_enter :: "ss_state \<Rightarrow> ss_state flow" where
  "ss_enter s =
     (if filteredChoices s = [] \<or> selectedChoice (ss s) = Choice0
      then (if optional (ss s) then Stop s
            else redraw (s\<lparr>valMessage := ''No selection made (required)''\<rparr>))
      else Stop s)"

definition ss_callback :: "(int \<Rightarrow> int) \<Rightarrow> Key \<Rightarrow> ss_state \<Rightarrow> ss_state flow" where
  "ss_callback uni key s =
     (case Code key of
        CtrlC \<Rightarrow> Stop (s\<lparr>interrupted := True\<rparr>)
      | Up \<Rightarrow> redraw (navigateUp s)
      | Left \<Rightarrow> redraw (navigateUp s)
      | Down \<Rightarrow> redraw (navigateDown s)
      | Right \<Rightarrow> redraw (navigateDown s)
      | Tab \<Rightarrow> redraw (s\<lparr>searchMode := \<not> searchMode s\<rparr>)
      | Escape \<Rightarrow> redraw (if searchMode s then s\<lparr>searchMode := False\<rparr> else s)
      | Enter \<Rightarrow> ss_enter s
      | Space \<Rightarrow> ss_space s
      | Backspace \<Rightarrow>
          if searchMode s \<and> searchQuery s \<noteq> []
          then redraw (ss_search uni (butlast (searchQuery s)) s)
          else redraw s
      | RuneKey \<Rightarrow>
          (case Runes key of
             [] \<Rightarrow> redraw s
           | r # rs \<Rightarrow>
               let keyPressed = runeString r
               in if searchMode s then redraw (ss_search uni (searchQuery s @ keyPressed) s)
                  else if keyPressed = ''j'' \<or> keyPressed = ''l'' then redraw (navigateDown s)
                  else if keyPressed = ''k'' \<or> keyPressed = ''h'' then redraw (navigateUp s)
                  else redraw s)
      | OtherKey \<Rightarrow> redraw s)"

text \<open>The state variables as \<^verbatim>\<open>Render\<close> declares them.\<close>

definition ss_init :: "singleSelect \<Rightarrow> ss_state" where
  "ss_init cfg =
     (let n = int (length (choices cfg)); p = min (pageSizeCfg cfg) n
      in \<lparr>interrupted = False, searchQuery = [], searchMode = False,
          filteredChoices = choices cfg, pageSize = p, cursorIdx = 0, startIdx = 0,
          endIdx = min n p, valMessage = [], stdOutput = [], ss = cfg\<rparr>)"

text \<open>The state at the first \<^verbatim>\<open>redraw\<close>: the cursor is saved and the default
  choice, when its index is in range, is the selection.\<close>

definition ss_setup :: "singleSelect \<Rightarrow> out_event list \<Rightarrow> ss_state" where
  "ss_setup cfg w =
     (let s = (ss_init cfg)\<lparr>stdOutput := w @ [HideSaveCursor]\<rparr>
      in case at (choices cfg) (defaultChoice cfg) of
           Some c \<Rightarrow> s\<lparr>ss := cfg\<lparr>selectedChoice := c\<rparr>\<rparr>
         | None \<Rightarrow> s)"

definition ss_finish :: "ss_state flow \<Rightarrow> out_event list \<times> Choice outcome" where
  "ss_finish r =
     (case r of
        Continue s \<Rightarrow> (stdOutput s, Waiting)
      | Panic s \<Rightarrow> (stdOutput s @ [ResetState], Panics)
      | Failed s \<Rightarrow> (stdOutput s @ [ResetState], Returns (Inl ErrKeyboard))
      | Stop s \<Rightarrow>
          (stdOutput s @ [ResetState],
           Returns (if interrupted s then Inl ErrInterrupted else Inr (selectedChoice (ss s)))))"

definition ss_session :: "(int \<Rightarrow> int) \<Rightarrow> singleSelect \<Rightarrow> out_event list \<Rightarrow> event list \<Rightarrow> ss_state flow" where
  "ss_session uni cfg w events =
     (case redraw (ss_setup cfg w) of
        Continue s \<Rightarrow> listen (ss_callback uni) s events
      | r \<Rightarrow> r)"

definition ss_Render ::
  "(int \<Rightarrow> int) \<Rightarrow> singleSelect \<Rightarrow> termDimensions \<Rightarrow> event list
     \<Rightarrow> out_event list \<times> Choice outcome" where
  "ss_Render uni cfg t events =
     (case makeSpace (9 + pageSize (ss_init cfg)) t of
        (w, Some e) \<Rightarrow> (w, Returns (Inl ErrTerminalTooSmall))
      | (w, None) \<Rightarrow>
          if choices cfg = [] then (w, Returns (Inl ErrNoSelectionChoices))
          else ss_finish (ss_session uni cfg w events))"

section \<open>Multi select\<close>

text \<open>\<^verbatim>\<open>isSelected\<close>: some selected choice has the value of \<open>choice\<close>.\<close>

definition isSelected :: "Choice list \<Rightarrow> Choice \<Rightarrow> bool" where
  "isSelected sel choice = list_ex (\<lambda>selected. Value selected = Value choice) sel"

text \<open>The first loop of \<^verbatim>\<open>toggleSelection\<close>: the selection without its first choice
  of value \<open>v\<close>, or \<open>None\<close> when no selected choice has that value.\<close>

fun removeFirst :: "string \<Rightarrow> Choice list \<Rightarrow> Choice list option" where
  "removeFirst v [] = None"
| "removeFirst v (selected # rest) =
     (if Value selected = v then Some rest
      else map_option ((#) selected) (removeFirst v rest))"

definition toggleSelection :: "Choice \<Rightarrow> multiSelect \<Rightarrow> multiSelect" where
  "toggleSelection choice m =
     (case removeFirst (Value choice) (selectedChoices m) of
        Some rest \<Rightarrow> m\<lparr>selectedChoices := rest\<rparr>
      | None \<Rightarrow>
          if maxSelectedCount m = 0 \<or> int (length (selectedChoices m)) < maxSelectedCount m
          then m\<lparr>selectedChoices := selectedChoices m @ [choice]\<rparr>
          else m)"

definition ms_search :: "(int \<Rightarrow> int) \<Rightarrow> string \<Rightarrow> ms_state \<Rightarrow> ms_state" where
  "ms_search uni q s =
     resetCursorAfterFilter
       (s\<lparr>searchQuery := q, filteredChoices := filterChoices uni (choices (ms s)) q\<rparr>)"

definition atLeastMessage :: "int \<Rightarrow> string" where
  "atLeastMessage n = ''At least '' @ Itoa n @ '' choices must be selected''"

definition ms_space :: "ms_state \<Rightarrow> ms_state flow" where
  "ms_space s =
     (if filteredChoices s = [] then redraw (s\<lparr>valMessage := ''No choices available''\<rparr>)
      else case at (filteredChoices s) (cursorIdx s) of
        None \<Rightarrow> Panic s
      | Some currentChoice \<Rightarrow>
          if Disabled currentChoice
          then redraw (s\<lparr>valMessage := ''Cannot select a disabled choice''\<rparr>)
          else if \<not> isSelected (selectedChoices (ms s)) currentChoice \<and>
                  int (length (selectedChoices (ms s))) \<ge> maxAllowed s
          then redraw (s\<lparr>valMessage :=
                  ''Cannot select more than '' @ Itoa (maxAllowed s) @ '' choices''\<rparr>)
          else
            let s1 = s\<lparr>ms := toggleSelection currentChoice (ms s)\<rparr>
            in if int (length (selectedChoices (ms s1))) < minRequired s1
               then redraw (s1\<lparr>valMessage := atLeastMessage (minRequired s1)\<rparr>)
               else redraw (s1\<lparr>valMessage := []\<rparr>))"

definition ms_enter :: "ms_state \<Rightarrow> ms_state flow" where
  "ms_enter s =
     (if int (length (selectedChoices (ms s))) < minRequired s
      then redraw (s\<lparr>valMessage := atLeastMessage (minRequired s)\<rparr>)
      else Stop s)"

definition ms_callback :: "(int \<Rightarrow> int) \<Rightarrow> Key \<Rightarrow> ms_state \<Rightarrow> ms_state flow" where
  "ms_callback uni key s =
     (case Code key of
        CtrlC \<Rightarrow> Stop (s\<lparr>interrupted := True\<rparr>)
      | Up \<Rightarrow> redraw (navigateUp s)
      | Left \<Rightarrow> redraw (navigateUp s)
      | Down \<Rightarrow> redraw (navigateDown s)
      | Right \<Rightarrow> redraw (navigateDown s)
      | Tab \<Rightarrow> redraw (s\<lparr>searchMode := \<not> searchMode s\<rparr>)
      | Escape \<Rightarrow> redraw (if searchMode s then s\<lparr>searchMode := False\<rparr> else s)
      | Enter \<Rightarrow> ms_enter s
      | Space \<Rightarrow> ms_space s
      | Backspace \<Rightarrow>
          if searchMode s \<and> searchQuery s \<noteq> []
          then redraw (ms_search uni (butlast (searchQuery s)) s)
          else redraw s
      | RuneKey \<Rightarrow>
          (case Runes key of
             [] \<Rightarrow> redraw s
           | r # rs \<Rightarrow>
               let keyPressed = runeString r
               in if searchMode s then redraw (ms_search uni (searchQuery s @ keyPressed) s)
                  else if keyPressed = ''j'' \<or> keyPressed = ''l'' then redraw (navigateDown s)
                  else if keyPressed = ''k'' \<or> keyPressed = ''h'' then redraw (navigateUp s)
                  else redraw s)
      | OtherKey \<Rightarrow> redraw s)"

definition ms_init :: "multiSelect \<Rightarrow> ms_state" where
  "ms_init cfg =
     (let n = int (length (choices cfg)); p = min (pageSizeCfg cfg) n;
          mn = max (minSelectedCount cfg) 0; mx = max (maxSelectedCount cfg) 0
      in \<lparr>interrupted = False, searchQuery = [], searchMode = False,
          filteredChoices = choices cfg, pageSize = p, cursorIdx = 0, startIdx = 0,
          endIdx = min n p, valMessage = [], stdOutput = [], ms = cfg,
          minRequired = (if \<not> optional cfg \<and> mn = 0 then 1 else mn),
          maxAllowed = (if mx = 0 then n else mx)\<rparr>)"

text \<open>The loop over \<^verbatim>\<open>ms.defaultChoices\<close>: every index in range adds its choice.\<close>

fun defaultLoop :: "Choice list \<Rightarrow> int list \<Rightarrow> Choice list \<Rightarrow> Choice list" where
  "defaultLoop cs [] sel = sel"
| "defaultLoop cs (defaultIdx # rest) sel =
     defaultLoop cs rest (case at cs defaultIdx of Some c \<Rightarrow> sel @ [c] | None \<Rightarrow> sel)"

definition ms_setup :: "multiSelect \<Rightarrow> out_event list \<Rightarrow> ms_state" where
  "ms_setup cfg w =
     (let s = (ms_init cfg)\<lparr>stdOutput := w @ [HideSaveCursor]\<rparr>
      in if defaultChoices cfg \<noteq> []
         then s\<lparr>ms := cfg\<lparr>selectedChoices := defaultLoop (choices cfg) (defaultChoices cfg) []\<rparr>\<rparr>
         else s)"

definition ms_finish :: "ms_state flow \<Rightarrow> out_event list \<times> Choice list outcome" where
  "ms_finish r =
     (case r of
        Continue s \<Rightarrow> (stdOutput s, Waiting)
      | Panic s \<Rightarrow> (stdOutput s @ [ResetState], Panics)
      | Failed s \<Rightarrow> (stdOutput s @ [ResetState], Returns (Inl ErrKeyboard))
      | Stop s \<Rightarrow>
          (stdOutput s @ [ResetState],
           Returns (if interrupted s then Inl ErrInterrupted else Inr (selectedChoices (ms s)))))"

definition ms_session :: "(int \<Rightarrow> int) \<Rightarrow> multiSelect \<Rightarrow> out_event list \<Rightarrow> event list \<Rightarrow> ms_state flow" where
  "ms_session uni cfg w events =
     (case redraw (ms_setup cfg w) of
        Continue s \<Rightarrow> listen (ms_callback uni) s events
      | r \<Rightarrow> r)"

definition ms_Render ::
  "(int \<Rightarrow> int) \<Rightarrow> multiSelect \<Rightarrow> termDimensions \<Rightarrow> event list
     \<Rightarrow> out_event list \<times> Choice list outcome" where
  "ms_Render uni cfg t events =
     (case makeSpace (9 + pageSize (ms_init cfg)) t of
        (w, Some e) \<Rightarrow> (w, Returns (Inl ErrTerminalTooSmall))
      | (w, None) \<Rightarrow>
          if choices cfg = [] then (w, Returns (Inl ErrNoSelectionChoices))
          else if minRequired (ms_init cfg) > maxAllowed (ms_init cfg)
          then (w, Returns (Inl ErrInvalidSelectionCount))
          else ms_finish (ms_session uni cfg w events))"

section \<open>Properties of a session\<close>

text \<open>
  The window of the specification: when the filtered list is not empty, the cursor is an
  index of it, the window holds the cursor and has at most \<open>pageSize\<close> rows.
\<close>

definition windowOK :: "'a session_scheme \<Rightarrow> bool" where
  "windowOK s =
     (if filteredChoices s = [] then True
      else 0 \<le> cursorIdx s \<and> cursorIdx s < int (length (filteredChoices s)) \<and>
           startIdx s \<le> cursorIdx s \<and> cursorIdx s < endIdx s \<and>
           endIdx s - startIdx s \<le> pageSize s)"

text \<open>Every read of the filtered list is inside it: the window that \<^verbatim>\<open>redraw\<close> walks
  through, and the cursor when the list is not empty.\<close>

definition boundsOK :: "'a session_scheme \<Rightarrow> bool" where
  "boundsOK s =
     (0 \<le> cursorIdx s \<and> 0 \<le> startIdx s \<and>
      endIdx s \<le> int (length (filteredChoices s)) \<and>
      (if filteredChoices s = [] then True
       else cursorIdx s < int (length (filteredChoices s))))"

text \<open>What every key keeps: the bounds, and the window when the page has a row.\<close>

definition sessionInv :: "'a session_scheme \<Rightarrow> bool" where
  "sessionInv s = (boundsOK s \<and> (if 1 \<le> pageSize s then windowOK s else True))"

text \<open>A step that did not panic and whose state has the property \<open>P\<close>.\<close>

definition flowInv :: "('a \<Rightarrow> bool) \<Rightarrow> 'a flow \<Rightarrow> bool" where
  "flowInv P r =
     (case r of Continue s \<Rightarrow> P s | Stop s \<Rightarrow> P s | Failed s \<Rightarrow> P s | Panic s \<Rightarrow> False)"

text \<open>What a session never changes: the page size, the limits, and the struct apart from
  its selection; and the filtered choices are choices of the struct.\<close>

definition ss_frame :: "singleSelect \<Rightarrow> ss_state \<Rightarrow> bool" where
  "ss_frame cfg s =
     (pageSize s = pageSize (ss_init cfg) \<and>
      choices (ss s) = choices cfg \<and> optional (ss s) = optional cfg \<and>
      pageSizeCfg (ss s) = pageSizeCfg cfg \<and> defaultChoice (ss s) = defaultChoice cfg \<and>
      set (filteredChoices s) \<subseteq> set (choices cfg))"

definition ms_frame :: "multiSelect \<Rightarrow> ms_state \<Rightarrow> bool" where
  "ms_frame cfg s =
     (pageSize s = pageSize (ms_init cfg) \<and>
      minRequired s = minRequired (ms_init cfg) \<and>
      maxAllowed s = maxAllowed (ms_init cfg) \<and>
      choices (ms s) = choices cfg \<and> optional (ms s) = optional cfg \<and>
      pageSizeCfg (ms s) = pageSizeCfg cfg \<and> defaultChoices (ms s) = defaultChoices cfg \<and>
      minSelectedCount (ms s) = minSelectedCount cfg \<and>
      maxSelectedCount (ms s) = maxSelectedCount cfg \<and>
      set (filteredChoices s) \<subseteq> set (choices cfg))"

section \<open>Notation for concrete sessions\<close>

abbreviation press :: "KeyCode \<Rightarrow> event" where
  "press c \<equiv> Pressed \<lparr>Code = c, Runes = []\<rparr>"

abbreviation typeRune :: "int \<Rightarrow> event" where
  "typeRune r \<equiv> Pressed \<lparr>Code = RuneKey, Runes = [r]\<rparr>"

abbreviation enabledChoice :: "string \<Rightarrow> string \<Rightarrow> Choice" where
  "enabledChoice v l \<equiv> \<lparr>Value = v, Label = l, Disabled = False\<rparr>"

section \<open>Filtering: what \<^verbatim>\<open>filterChoices\<close> returns\<close>

lemma hasPrefix_prefix: "hasPrefix s p = prefix p s"
  by (induction s p rule: hasPrefix.induct) auto

lemma Contains_sublist: "Contains s substr = sublist substr s"
  by (induction s) (auto simp: hasPrefix_prefix sublist_Cons_right)

lemma filterLoop_filter:
  "filterLoop uni q cs acc = acc @ filter (\<lambda>c. sublist q (ToLower uni (Label c))) cs"
  by (induction cs arbitrary: acc) (simp_all add: Contains_sublist)

lemma map_lowerByte_id: "\<not> list_ex isUpper s \<Longrightarrow> map lowerByte s = s"
  by (induction s) (simp_all add: lowerByte_def)

lemma ToLower_ASCII: "isASCII s \<Longrightarrow> ToLower uni s = map lowerByte s"
  by (simp add: ToLower_def map_lowerByte_id)

lemma sublist_map_iff:
  "sublist (map f q) (map f l) \<longleftrightarrow> (\<exists>ps m ss. l = ps @ m @ ss \<and> map f m = map f q)"
proof
  assume "sublist (map f q) (map f l)"
  then obtain ps' ss' where "map f l = ps' @ map f q @ ss'"
    by (auto simp: sublist_def)
  then have "\<exists>ps r. l = ps @ r \<and> ps' = map f ps \<and> map f q @ ss' = map f r"
    by (simp only: map_eq_append_conv)
  then obtain ps r where l: "l = ps @ r" and r: "map f r = map f q @ ss'"
    by auto
  from r have "\<exists>m ss. r = m @ ss \<and> map f q = map f m \<and> ss' = map f ss"
    by (simp only: map_eq_append_conv)
  then obtain m ss where "r = m @ ss" "map f m = map f q"
    by auto
  with l show "\<exists>ps m ss. l = ps @ m @ ss \<and> map f m = map f q" by blast
next
  assume "\<exists>ps m ss. l = ps @ m @ ss \<and> map f m = map f q"
  then obtain ps m ss where "l = ps @ m @ ss" "map f m = map f q" by blast
  then have "map f l = map f ps @ map f q @ map f ss" by simp
  then show "sublist (map f q) (map f l)" unfolding sublist_def by blast
qed

lemma match_ASCII:
  "isASCII q \<Longrightarrow> isASCII l \<Longrightarrow>
     sublist (ToLower uni q) (ToLower uni l) = caseInsensitiveSubstring q l"
  by (simp add: ToLower_ASCII sublist_map_iff caseInsensitiveSubstring_def)

lemma filterChoices_filter:
  "filterChoices uni cs q =
     (if q = [] then cs
      else filter (\<lambda>c. sublist (ToLower uni q) (ToLower uni (Label c))) cs)"
  by (simp add: filterChoices_def filterLoop_filter)

subsection \<open>Encoding and decoding characters\<close>

text \<open>
  Decoding reads back what encoding wrote, and every rune it yields is a scalar value.
  An encoding starts with a byte that is no continuation byte and goes on with
  continuation bytes only, so that the encoding of one string of characters occurs in the
  encoding of another exactly where the characters occur.
\<close>

lemma mod_hi: "a < m \<Longrightarrow> (k * m + a) mod m = (a::nat)"
  by simp

lemma digits3:
  "(n::nat) = n div 4096 * 4096 + n div 64 mod 64 * 64 + n mod 64"
proof -
  have 1: "n div 64 = n div 64 div 64 * 64 + n div 64 mod 64" by simp
  have 2: "n = n div 64 * 64 + n mod 64" by simp
  have 3: "n div 4096 = n div 64 div 64" by (simp add: div_mult2_eq [symmetric])
  have "m = x * 64 + y \<Longrightarrow> k = m * 64 + c \<Longrightarrow> k = x * 4096 + y * 64 + c"
    for m x y k c :: nat by simp
  from this [OF 1 2] show ?thesis unfolding 3 .
qed

lemma digits4:
  "(n::nat) = n div 262144 * 262144 + n div 4096 mod 64 * 4096 + n div 64 mod 64 * 64 + n mod 64"
proof -
  have 1: "n div 4096 = n div 4096 div 64 * 64 + n div 4096 mod 64" by simp
  have 3: "n div 262144 = n div 4096 div 64" by (simp add: div_mult2_eq [symmetric])
  have "m = x * 64 + y \<Longrightarrow> k = m * 4096 + c \<Longrightarrow> k = x * 262144 + y * 4096 + c"
    for m x y k c :: nat by simp
  from this [OF 1 digits3 [of n, unfolded add.assoc]] show ?thesis
    unfolding 3 by (simp add: add.assoc)
qed

lemma decode_encode:
  assumes "validRune r"
  shows "decodeRune (runeString r @ rest) = (r, length (runeString r))"
proof -
  from assms obtain n where r: "r = int n" and n: "n \<le> 1114111" "\<not> (55296 \<le> n \<and> n \<le> 57343)"
    unfolding validRune_def by (metis nat_le_iff nat_0_le of_nat_le_iff of_nat_numeral)
  consider "n < 128" | "128 \<le> n" "n < 2048" | "2048 \<le> n" "n < 65536" | "65536 \<le> n"
    by linarith
  then show ?thesis
  proof cases
    case 1
    then show ?thesis
      by (simp add: r runeString_def decodeRune_def byte_def)
  next
    case 2
    define a where "a = n div 64"
    define b where "b = n mod 64"
    have nab: "n = a * 64 + b" and b: "b < 64"
      by (simp_all add: a_def b_def)
    have a: "a < 32" "2 \<le> a"
      using 2 unfolding nab using b by linarith+
    have m: "(192 + a) mod 32 = a" "(128 + b) mod 64 = b"
      using mod_hi [of a 32 6] mod_hi [of b 64 2] a b by simp_all
    have e: "runeString r = [char_of (192 + a), char_of (128 + b)]"
      using 2 by (simp add: r runeString_def byte_def nat_add_distrib nat_div_distrib
          nat_mod_distrib a_def b_def)
    show ?thesis
      unfolding e using a b m
      by (simp add: decodeRune_def acceptLo_def acceptHi_def r nab)
  next
    case 3
    define a where "a = n div 4096"
    define b where "b = n div 64 mod 64"
    define c where "c = n mod 64"
    have nab: "n = a * 4096 + b * 64 + c" and b: "b < 64" and c: "c < 64"
      unfolding a_def b_def c_def using digits3 [of n] by simp_all
    have a: "a < 16" "a = 0 \<longrightarrow> 32 \<le> b" "a = 13 \<longrightarrow> b < 32"
      using 3 n unfolding nab using b c by linarith+
    have m: "(224 + a) mod 16 = a" "(128 + b) mod 64 = b" "(128 + c) mod 64 = c"
      using mod_hi [of a 16 14] mod_hi [of b 64 2] mod_hi [of c 64 2] a b c by simp_all
    have e: "runeString r = [char_of (224 + a), char_of (128 + b), char_of (128 + c)]"
      using 3 n by (simp add: r runeString_def byte_def nat_add_distrib nat_div_distrib
          nat_mod_distrib a_def b_def c_def cong: conj_cong)
    show ?thesis
      unfolding e using a b c m
      by (auto simp: decodeRune_def acceptLo_def acceptHi_def r nab)
  next
    case 4
    define a where "a = n div 262144"
    define b where "b = n div 4096 mod 64"
    define c where "c = n div 64 mod 64"
    define d where "d = n mod 64"
    have nab: "n = a * 262144 + b * 4096 + c * 64 + d"
      and b: "b < 64" and c: "c < 64" and d: "d < 64"
      unfolding a_def b_def c_def d_def using digits4 [of n] by simp_all
    have a: "a \<le> 4" "a = 0 \<longrightarrow> 16 \<le> b" "a = 4 \<longrightarrow> b < 16"
      using 4 n unfolding nab using b c d by linarith+
    have m: "(240 + a) mod 8 = a" "(128 + b) mod 64 = b" "(128 + c) mod 64 = c"
      "(128 + d) mod 64 = d"
      using mod_hi [of a 8 30] mod_hi [of b 64 2] mod_hi [of c 64 2] mod_hi [of d 64 2] a b c d
      by simp_all
    have e: "runeString r = [char_of (240 + a), char_of (128 + b), char_of (128 + c),
        char_of (128 + d)]"
      using 4 n by (simp add: r runeString_def byte_def nat_add_distrib nat_div_distrib
          nat_mod_distrib a_def b_def c_def d_def cong: conj_cong)
    show ?thesis
      unfolding e using a b c d m
      by (auto simp: decodeRune_def acceptLo_def acceptHi_def r nab)
  qed
qed

lemma mod_range: "k * m \<le> b \<Longrightarrow> b < k * m + m \<Longrightarrow> b mod m = b - k * (m::nat)"
  using mod_hi [of "b - k * m" m k] by simp

lemma validRune_RuneError: "validRune RuneError"
  by (simp add: validRune_def RuneError_def)

lemma cont_mod: "128 \<le> b \<Longrightarrow> b \<le> 191 \<Longrightarrow> b mod 64 = b - (128::nat)"
  using mod_range [of 2 64 b] by simp

lemma decodeBytes_valid: "validRune (fst (decodeBytes bs))"
proof (cases bs)
  case Nil
  then show ?thesis by (simp add: validRune_RuneError)
next
  case (Cons b0 rest)
  consider "b0 < 128" | "128 \<le> b0" "b0 < 194 \<or> 244 < b0" | "194 \<le> b0" "b0 < 224"
    | "224 \<le> b0" "b0 < 240" | "240 \<le> b0" "b0 \<le> 244"
    by linarith
  then show ?thesis
  proof cases
    case 1
    then show ?thesis by (simp add: Cons validRune_def)
  next
    case 2
    then show ?thesis by (auto simp: Cons validRune_RuneError)
  next
    case 3
    have m: "b0 mod 32 = b0 - 192"
      using mod_range [of 6 32 b0] 3 by simp
    show ?thesis
      using 3 by (auto simp: Cons RuneError_def validRune_def m cont_mod
          acceptLo_def acceptHi_def split: list.splits)
  next
    case 4
    have m: "b0 mod 16 = b0 - 224"
      using mod_range [of 14 16 b0] 4 by simp
    show ?thesis
      using 4 by (auto simp: Cons RuneError_def validRune_def m cont_mod
          acceptLo_def acceptHi_def split: list.splits if_splits)
  next
    case 5
    have m: "b0 mod 8 = b0 - 240"
      using mod_range [of 30 8 b0] 5 by simp
    show ?thesis
      using 5 by (auto simp: Cons RuneError_def validRune_def m cont_mod
          acceptLo_def acceptHi_def split: list.splits if_splits)
  qed
qed

lemma runesFrom_valid: "list_all validRune (runesFrom k s)"
proof (induction k s rule: runesFrom.induct)
  case (2 c cs)
  obtain r width where d: "decodeRune (c # cs) = (r, width)"
    by (cases "decodeRune (c # cs)")
  have "validRune (fst (decodeRune (c # cs)))"
    unfolding decodeRune_def by (rule decodeBytes_valid)
  with 2 [OF d [symmetric]] d show ?case by simp
qed simp_all

lemma decodeRunes_valid: "list_all validRune (decodeRunes s)"
  by (simp add: decodeRunes_def runesFrom_valid)

lemma runesFrom_skip: "length xs = k \<Longrightarrow> runesFrom k (xs @ rest) = runesFrom 0 rest"
  by (induction xs arbitrary: k) auto

lemma runeString_nonempty: "runeString r \<noteq> []"
  by (simp add: runeString_def)

lemma decodeRunes_Cons:
  assumes "validRune r"
  shows "decodeRunes (runeString r @ rest) = r # decodeRunes rest"
proof -
  obtain h t where ht: "runeString r = h # t"
    using runeString_nonempty [of r] by (cases "runeString r") auto
  have "decodeRune (h # t @ rest) = (r, Suc (length t))"
    using decode_encode [OF assms, of rest] by (simp add: ht)
  then show ?thesis
    by (simp add: decodeRunes_def ht runesFrom_skip)
qed

lemma encodeRunes_append: "encodeRunes (xs @ ys) = encodeRunes xs @ encodeRunes ys"
  by (simp add: encodeRunes_def)

lemma decodeRunes_encodeRunes_append:
  "list_all validRune rs \<Longrightarrow> decodeRunes (encodeRunes rs @ rest) = rs @ decodeRunes rest"
  by (induction rs) (simp_all add: encodeRunes_def decodeRunes_Cons)

lemma decodeRunes_encodeRunes:
  "list_all validRune rs \<Longrightarrow> decodeRunes (encodeRunes rs) = rs"
  using decodeRunes_encodeRunes_append [of rs "[]"] by (simp add: decodeRunes_def)

lemma cont_byte: "0 \<le> x \<Longrightarrow> x < 64 \<Longrightarrow> continuation (byte (128 + x))"
  by (simp add: continuation_def byte_def nat_add_distrib)

lemma lead_byte: "0 \<le> x \<Longrightarrow> x < 64 \<Longrightarrow> \<not> continuation (byte (192 + x))"
  by (simp add: continuation_def byte_def nat_add_distrib)

lemma runeString_shape:
  "\<exists>h t. runeString r = h # t \<and> \<not> continuation h \<and> list_all continuation t"
proof -
  consider "0 \<le> r \<and> r < 128" | "128 \<le> r" "r < 2048"
    | "r < 0 \<or> 1114111 < r \<or> (55296 \<le> r \<and> r \<le> 57343)"
    | "2048 \<le> r" "r < 65536" "\<not> (55296 \<le> r \<and> r \<le> 57343)"
    | "65536 \<le> r" "r \<le> 1114111"
    by linarith
  then show ?thesis
  proof cases
    case 1
    then have "nat r < 128" by linarith
    with 1 show ?thesis
      by (simp add: runeString_def continuation_def byte_def)
  next
    case 2
    then have "0 \<le> r div 64" "r div 64 < 64" by simp_all
    with 2 show ?thesis
      by (simp add: runeString_def cont_byte lead_byte)
  next
    case 3
    then have e: "runeString r = [byte 239, byte 191, byte 189]"
      by (auto simp: runeString_def)
    show ?thesis
      unfolding e by (simp add: continuation_def byte_def)
  next
    case 4
    then have "0 \<le> r div 4096" "r div 4096 < 16" by simp_all
    then have "\<not> continuation (byte (192 + (32 + r div 4096)))"
      by (intro lead_byte) simp_all
    with 4 show ?thesis
      by (simp add: runeString_def cont_byte cong: conj_cong)
  next
    case 5
    then have "0 \<le> r div 262144" "r div 262144 < 8" by simp_all
    then have "\<not> continuation (byte (192 + (48 + r div 262144)))"
      by (intro lead_byte) simp_all
    with 5 show ?thesis
      by (simp add: runeString_def cont_byte cong: conj_cong)
  qed
qed

lemma boundary:
  assumes "encodeRunes bs = P @ X" and "X = [] \<or> \<not> continuation (hd X)"
  shows "\<exists>p x. bs = p @ x \<and> P = encodeRunes p \<and> X = encodeRunes x"
  using assms
proof (induction bs arbitrary: P)
  case Nil
  then show ?case by (simp add: encodeRunes_def)
next
  case (Cons b bs)
  obtain h t where ht: "runeString b = h # t" and h: "\<not> continuation h"
    and t: "list_all continuation t"
    using runeString_shape [of b] by blast
  from Cons.prems(1) have "runeString b @ encodeRunes bs = P @ X"
    by (simp add: encodeRunes_def)
  then consider us where "runeString b = P @ us" "X = us @ encodeRunes bs"
    | us where "runeString b @ us = P" "encodeRunes bs = us @ X"
    by (auto simp: append_eq_append_conv2)
  then show ?case
  proof cases
    case 1
    show ?thesis
    proof (cases "P = []")
      case True
      with 1 have "X = encodeRunes (b # bs)" by (simp add: encodeRunes_def)
      with True show ?thesis
        by (intro exI [of _ "[]"] exI [of _ "b # bs"]) (simp add: encodeRunes_def)
    next
      case False
      then obtain p ps where P: "P = p # ps" by (cases P) auto
      with 1(1) ht have tu: "t = ps @ us" by simp
      have "us = []"
      proof (rule ccontr)
        assume "us \<noteq> []"
        then obtain u us' where us: "us = u # us'" by (cases us) auto
        with t tu have "continuation u" by simp
        moreover from 1(2) us have "X \<noteq> []" "hd X = u" by simp_all
        ultimately show False using Cons.prems(2) by simp
      qed
      with 1 have "P = encodeRunes [b]" "X = encodeRunes bs"
        by (simp_all add: encodeRunes_def)
      then show ?thesis
        by (intro exI [of _ "[b]"] exI [of _ bs]) simp
    qed
  next
    case 2
    from Cons.IH [OF 2(2) Cons.prems(2)] obtain p x where
      "bs = p @ x" "us = encodeRunes p" "X = encodeRunes x"
      by blast
    with 2(1) show ?thesis
      by (intro exI [of _ "b # p"] exI [of _ x]) (auto simp: encodeRunes_def)
  qed
qed

lemma sublist_encodeRunes:
  assumes "list_all validRune qs" and "list_all validRune bs"
  shows "sublist (encodeRunes qs) (encodeRunes bs) = sublist qs bs"
proof
  assume "sublist qs bs"
  then obtain p s where "bs = p @ qs @ s" by (auto simp: sublist_def)
  then have "encodeRunes bs = encodeRunes p @ encodeRunes qs @ encodeRunes s"
    by (simp add: encodeRunes_append)
  then show "sublist (encodeRunes qs) (encodeRunes bs)"
    unfolding sublist_def by blast
next
  assume "sublist (encodeRunes qs) (encodeRunes bs)"
  then obtain P S where e: "encodeRunes bs = P @ encodeRunes qs @ S"
    by (auto simp: sublist_def)
  show "sublist qs bs"
  proof (cases qs)
    case Nil
    then show ?thesis by simp
  next
    case (Cons a as)
    obtain h t where "runeString a = h # t" "\<not> continuation h"
      using runeString_shape [of a] by blast
    then have "\<not> continuation (hd (encodeRunes qs @ S))"
      by (simp add: Cons encodeRunes_def)
    with boundary [OF e] obtain p x where
      bs: "bs = p @ x" and x: "encodeRunes qs @ S = encodeRunes x"
      by blast
    from assms(2) bs have "list_all validRune x" by simp
    then have "x = decodeRunes (encodeRunes qs @ S)"
      by (simp add: x decodeRunes_encodeRunes)
    also have "\<dots> = qs @ decodeRunes S"
      using assms(1) by (rule decodeRunes_encodeRunes_append)
    finally show ?thesis
      unfolding bs sublist_def by blast
  qed
qed

lemma decodeRunes_ASCII:
  "isASCII s \<Longrightarrow> decodeRunes s = map (\<lambda>c. int (of_char c)) s"
  by (induction s) (simp_all add: decodeRunes_def isASCII_def decodeRune_def)

lemma runeString_lower_ASCII:
  assumes "(of_char c :: nat) < 128"
  shows "runeString (unicodeToLower uni (int (of_char c))) = [lowerByte c]"
  using assms
  by (simp add: unicodeToLower_def runeString_def lowerByte_def isUpper_def byte_def
      nat_add_distrib)

lemma encode_lower_ASCII:
  "isASCII s \<Longrightarrow>
     encodeRunes (map (unicodeToLower uni) (map (\<lambda>c. int (of_char c)) s)) = map lowerByte s"
  by (induction s) (simp_all add: encodeRunes_def isASCII_def runeString_lower_ASCII)

lemma unicodeToLower_valid:
  "keepsRunes uni \<Longrightarrow> validRune r \<Longrightarrow> validRune (unicodeToLower uni r)"
  by (auto simp: unicodeToLower_def keepsRunes_def validRune_def)

lemma lowered_valid:
  "keepsRunes uni \<Longrightarrow> list_all validRune (map (unicodeToLower uni) (decodeRunes s))"
  using decodeRunes_valid [of s] by (simp add: list_all_iff unicodeToLower_valid)

lemma Map_encodeRunes:
  assumes "list_all validRune (map f rs)"
  shows "concat (map (\<lambda>c. let r = f c in if r \<ge> 0 then runeString r else []) rs)
           = encodeRunes (map f rs)"
  using assms by (induction rs) (simp_all add: encodeRunes_def validRune_def)

lemma ToLower_runes:
  assumes "keepsRunes uni"
  shows "ToLower uni s = encodeRunes (map (unicodeToLower uni) (decodeRunes s))"
proof (cases "isASCII s")
  case True
  then show ?thesis
    using encode_lower_ASCII [of s uni]
    by (simp add: ToLower_ASCII decodeRunes_ASCII)
next
  case False
  then show ?thesis
    using Map_encodeRunes [OF lowered_valid [OF assms, of s]]
    by (simp add: ToLower_def Map_def)
qed

lemma match_runes:
  "keepsRunes uni \<Longrightarrow>
     sublist (ToLower uni q) (ToLower uni l) = caseInsensitiveRunes uni q l"
  by (simp add: ToLower_runes sublist_encodeRunes lowered_valid sublist_map_iff
      caseInsensitiveRunes_def)

text \<open>
  Claim C4, as amended. \<^verbatim>\<open>filterChoices\<close> returns the whole choice list for the empty
  query; for any other query it returns, in the order of the list, exactly the choices
  whose label, lowered by \<^verbatim>\<open>strings.ToLower\<close>, contains the lowered query; the result is
  a subsequence of the list. For a query of ASCII bytes a choice with a label of ASCII
  bytes is kept exactly when its label has a substring equal to the query up to the case
  of its letters. For every query that is not empty, when the lower-case table keeps
  characters, a choice is kept exactly when the characters of its label have a run equal
  to the characters of the query up to \<^verbatim>\<open>unicode.ToLower\<close>; the characters of a string
  are the runes decoded from it, which for the encoding of a string of characters are
  these characters. For choices labelled Apple, Banana and Cherry and the query \<open>an\<close>
  the result is the Banana choice alone.
\<close>

theorem filterChoices_matches:
  "filterChoices uni cs q =
     (if q = [] then cs
      else filter (\<lambda>c. sublist (ToLower uni q) (ToLower uni (Label c))) cs)
   \<and> subseq (filterChoices uni cs q) cs
   \<and> (q \<noteq> [] \<and> isASCII q \<longrightarrow>
        filterChoices uni cs q =
          filter (\<lambda>c. if isASCII (Label c) then caseInsensitiveSubstring q (Label c)
                      else sublist (map lowerByte q) (Map (unicodeToLower uni) (Label c))) cs)
   \<and> (q \<noteq> [] \<and> keepsRunes uni \<longrightarrow>
        filterChoices uni cs q = filter (\<lambda>c. caseInsensitiveRunes uni q (Label c)) cs)
   \<and> (list_all validRune rs \<longrightarrow> decodeRunes (encodeRunes rs) = rs)
   \<and> filterChoices uni
        [\<lparr>Value = a, Label = ''Apple'', Disabled = da\<rparr>,
         \<lparr>Value = b, Label = ''Banana'', Disabled = db\<rparr>,
         \<lparr>Value = c, Label = ''Cherry'', Disabled = dc\<rparr>] ''an''
      = [\<lparr>Value = b, Label = ''Banana'', Disabled = db\<rparr>]"
proof (intro conjI impI)
  show "filterChoices uni cs q =
     (if q = [] then cs
      else filter (\<lambda>c. sublist (ToLower uni q) (ToLower uni (Label c))) cs)"
    by (rule filterChoices_filter)
  show "subseq (filterChoices uni cs q) cs"
    by (simp add: filterChoices_filter)
  show "filterChoices uni cs q =
          filter (\<lambda>c. if isASCII (Label c) then caseInsensitiveSubstring q (Label c)
                      else sublist (map lowerByte q) (Map (unicodeToLower uni) (Label c))) cs"
    if "q \<noteq> [] \<and> isASCII q"
  proof -
    have "sublist (ToLower uni q) (ToLower uni l) =
        (if isASCII l then caseInsensitiveSubstring q l
         else sublist (map lowerByte q) (Map (unicodeToLower uni) l))" for l
    proof (cases "isASCII l")
      case True
      with that show ?thesis by (simp add: match_ASCII)
    next
      case False
      have "ToLower uni q = map lowerByte q"
        using that by (simp add: ToLower_ASCII)
      moreover have "ToLower uni l = Map (unicodeToLower uni) l"
        using False by (simp add: ToLower_def)
      ultimately show ?thesis using False by simp
    qed
    with that show ?thesis by (simp add: filterChoices_filter)
  qed
  show "filterChoices uni cs q = filter (\<lambda>c. caseInsensitiveRunes uni q (Label c)) cs"
    if "q \<noteq> [] \<and> keepsRunes uni"
    using that by (simp add: filterChoices_filter match_runes)
  show "decodeRunes (encodeRunes rs) = rs" if "list_all validRune rs"
    using that by (rule decodeRunes_encodeRunes)
  show "filterChoices uni
        [\<lparr>Value = a, Label = ''Apple'', Disabled = da\<rparr>,
         \<lparr>Value = b, Label = ''Banana'', Disabled = db\<rparr>,
         \<lparr>Value = c, Label = ''Cherry'', Disabled = dc\<rparr>] ''an''
      = [\<lparr>Value = b, Label = ''Banana'', Disabled = db\<rparr>]"
    by (simp add: filterChoices_def ToLower_def isASCII_def isUpper_def lowerByte_def
        char_of_eq_iff)
qed

text \<open>
  Claim C4 as stated fails for a query that is not well-formed UTF-8, which Backspace
  leaves behind: the label \<open>caf\<close> followed by the two bytes C3 A9 of U+00E9 contains the
  query byte C3, but the lowered query is the encoding of U+FFFD, which the lowered label
  does not contain, and the choice is filtered out. It is so in a session after Tab, the
  key for U+00E9 and Backspace.
\<close>

theorem filterChoices_matches_counterexample:
  "caseInsensitiveSubstring [CHR 0xC3] [CHR ''c'', CHR ''a'', CHR ''f'', CHR 0xC3, CHR 0xA9] \<and>
   filterChoices id
       [enabledChoice ''c'' [CHR ''c'', CHR ''a'', CHR ''f'', CHR 0xC3, CHR 0xA9]] [CHR 0xC3]
     = [] \<and>
   searchQuery (flowState (ss_session id
       \<lparr>choices = [enabledChoice ''c'' [CHR ''c'', CHR ''a'', CHR ''f'', CHR 0xC3, CHR 0xA9]],
        optional = False, pageSizeCfg = 10, defaultChoice = - 1, selectedChoice = Choice0\<rparr>
       [] [press Tab, typeRune 233, press Backspace]))
     = [CHR 0xC3] \<and>
   filteredChoices (flowState (ss_session id
       \<lparr>choices = [enabledChoice ''c'' [CHR ''c'', CHR ''a'', CHR ''f'', CHR 0xC3, CHR 0xA9]],
        optional = False, pageSizeCfg = 10, defaultChoice = - 1, selectedChoice = Choice0\<rparr>
       [] [press Tab, typeRune 233, press Backspace]))
     = []"
proof -
  have "[CHR ''c'', CHR ''a'', CHR ''f'', CHR 0xC3, CHR 0xA9]
          = ''caf'' @ [CHR 0xC3] @ [CHR 0xA9] \<and>
        map lowerByte [CHR 0xC3] = map lowerByte [CHR 0xC3]"
    by simp
  then have a: "caseInsensitiveSubstring [CHR 0xC3]
      [CHR ''c'', CHR ''a'', CHR ''f'', CHR 0xC3, CHR 0xA9]"
    unfolding caseInsensitiveSubstring_def by blast
  have b: "filterChoices id
       [enabledChoice ''c'' [CHR ''c'', CHR ''a'', CHR ''f'', CHR 0xC3, CHR 0xA9]] [CHR 0xC3]
     = [] \<and>
   searchQuery (flowState (ss_session id
       \<lparr>choices = [enabledChoice ''c'' [CHR ''c'', CHR ''a'', CHR ''f'', CHR 0xC3, CHR 0xA9]],
        optional = False, pageSizeCfg = 10, defaultChoice = - 1, selectedChoice = Choice0\<rparr>
       [] [press Tab, typeRune 233, press Backspace]))
     = [CHR 0xC3] \<and>
   filteredChoices (flowState (ss_session id
       \<lparr>choices = [enabledChoice ''c'' [CHR ''c'', CHR ''a'', CHR ''f'', CHR 0xC3, CHR 0xA9]],
        optional = False, pageSizeCfg = 10, defaultChoice = - 1, selectedChoice = Choice0\<rparr>
       [] [press Tab, typeRune 233, press Backspace]))
     = []"
    by code_simp
  from a b show ?thesis by (rule conjI)
qed

text \<open>
  The theorem at the query \<open>An\<close> and the labels Apple and BANANA; at the query U+00E9,
  lower-case e with acute accent, and the labels CAF followed by U+00C9, its upper case,
  and tea, with a table that lowers U+00C9 and nothing else; and at the characters U+00E9
  and U+20AC.
\<close>

theorem filterChoices_matches_witness:
  "''An'' \<noteq> [] \<and> isASCII ''An'' \<and>
   filter (\<lambda>c. if isASCII (Label c) then caseInsensitiveSubstring ''An'' (Label c)
               else sublist (map lowerByte ''An'') (Map (unicodeToLower id) (Label c)))
     [\<lparr>Value = ''a'', Label = ''Apple'', Disabled = False\<rparr>,
      \<lparr>Value = ''b'', Label = ''BANANA'', Disabled = False\<rparr>]
   = [\<lparr>Value = ''b'', Label = ''BANANA'', Disabled = False\<rparr>] \<and>
   keepsRunes (\<lambda>r. if r = 201 then 233 else r) \<and>
   filter (\<lambda>c. caseInsensitiveRunes (\<lambda>r. if r = 201 then 233 else r)
                 [CHR 0xC3, CHR 0xA9] (Label c))
     [enabledChoice ''c'' [CHR ''C'', CHR ''A'', CHR ''F'', CHR 0xC3, CHR 0x89],
      enabledChoice ''t'' ''tea'']
   = [enabledChoice ''c'' [CHR ''C'', CHR ''A'', CHR ''F'', CHR 0xC3, CHR 0x89]] \<and>
   list_all validRune [233, 8364] \<and>
   decodeRunes (encodeRunes [233, 8364]) = [233, 8364]"
proof -
  define cs where "cs = [\<lparr>Value = ''a'', Label = ''Apple'', Disabled = False\<rparr>,
      \<lparr>Value = ''b'', Label = ''BANANA'', Disabled = False\<rparr>]"
  have h: "''An'' \<noteq> [] \<and> isASCII ''An''"
    by (simp add: isASCII_def)
  have e: "filterChoices id cs ''An''
     = [\<lparr>Value = ''b'', Label = ''BANANA'', Disabled = False\<rparr>]"
    by (simp add: filterChoices_def ToLower_def isASCII_def isUpper_def lowerByte_def
        char_of_eq_iff cs_def)
  note m = filterChoices_matches [of id cs "''An''", THEN conjunct2, THEN conjunct2,
      THEN conjunct1, THEN mp, OF h]
  have 1: "filter (\<lambda>c. if isASCII (Label c) then caseInsensitiveSubstring ''An'' (Label c)
               else sublist (map lowerByte ''An'') (Map (unicodeToLower id) (Label c))) cs
     = [\<lparr>Value = ''b'', Label = ''BANANA'', Disabled = False\<rparr>]"
    by (rule trans [OF m [symmetric] e])
  define tbl :: "int \<Rightarrow> int" where "tbl = (\<lambda>r. if r = 201 then 233 else r)"
  define ds where "ds = [enabledChoice ''c'' [CHR ''C'', CHR ''A'', CHR ''F'', CHR 0xC3, CHR 0x89],
      enabledChoice ''t'' ''tea'']"
  have k: "keepsRunes tbl"
    by (simp add: keepsRunes_def tbl_def validRune_def)
  have q: "[CHR 0xC3, CHR 0xA9] \<noteq> ([] :: string)"
    by simp
  have f: "filterChoices tbl ds [CHR 0xC3, CHR 0xA9]
      = [enabledChoice ''c'' [CHR ''C'', CHR ''A'', CHR ''F'', CHR 0xC3, CHR 0x89]]"
    unfolding tbl_def ds_def by code_simp
  note n = filterChoices_matches [of tbl ds "[CHR 0xC3, CHR 0xA9]", THEN conjunct2,
      THEN conjunct2, THEN conjunct2, THEN conjunct1, THEN mp, OF conjI, OF q k]
  have 2: "filter (\<lambda>c. caseInsensitiveRunes tbl [CHR 0xC3, CHR 0xA9] (Label c)) ds
      = [enabledChoice ''c'' [CHR ''C'', CHR ''A'', CHR ''F'', CHR 0xC3, CHR 0x89]]"
    by (rule trans [OF n [symmetric] f])
  have v: "list_all validRune [233, 8364]"
    by (simp add: validRune_def)
  note 3 = filterChoices_matches [where rs = "[233, 8364]", THEN conjunct2, THEN conjunct2,
      THEN conjunct2, THEN conjunct2, THEN conjunct1, THEN mp, OF v]
  from h 1 k 2 v 3 show ?thesis
    unfolding cs_def tbl_def ds_def by (intro conjI) (simp_all only: simp_thms)
qed

section \<open>The window of a session\<close>

lemma reset_sel:
  "filteredChoices (resetCursorAfterFilter s) = filteredChoices s"
  "pageSize (resetCursorAfterFilter s) = pageSize s"
  by (simp_all add: resetCursorAfterFilter_def Let_def)

lemma reset_cursorIdx:
  "cursorIdx (resetCursorAfterFilter s) =
     (if filteredChoices s = [] then 0
      else if cursorIdx s \<ge> int (length (filteredChoices s))
      then int (length (filteredChoices s)) - 1 else cursorIdx s)"
  by (simp add: resetCursorAfterFilter_def Let_def)

lemma reset_startIdx:
  "startIdx (resetCursorAfterFilter s) =
     (if filteredChoices s = [] then 0
      else let c = cursorIdx (resetCursorAfterFilter s);
               s1 = (if c < startIdx s then c else startIdx s)
           in if c \<ge> s1 + pageSize s then max 0 (c - pageSize s + 1) else s1)"
  by (simp add: resetCursorAfterFilter_def Let_def)

lemma reset_endIdx:
  "endIdx (resetCursorAfterFilter s) =
     (if filteredChoices s = [] then 0
      else min (startIdx (resetCursorAfterFilter s) + pageSize s)
               (int (length (filteredChoices s))))"
  by (simp add: resetCursorAfterFilter_def Let_def)

text \<open>The arithmetic of \<^verbatim>\<open>resetCursorAfterFilter\<close> on a list of \<open>n > 0\<close> choices.\<close>

lemma window_arith:
  fixes n c0 s0 p c s2 e :: int
  assumes "0 \<le> c0" "0 \<le> s0" "0 < n"
    and "c = (if c0 \<ge> n then n - 1 else c0)"
    and "s2 = (let s1 = (if c < s0 then c else s0) in if c \<ge> s1 + p then max 0 (c - p + 1) else s1)"
    and "e = min (s2 + p) n"
  shows "0 \<le> c \<and> c < n \<and> 0 \<le> s2 \<and> e \<le> n \<and>
         (1 \<le> p \<longrightarrow> s2 \<le> c \<and> c < e \<and> e - s2 \<le> p)"
  using assms by (auto simp: Let_def min_def max_def split: if_splits)

lemma inv_resetCursorAfterFilter:
  assumes "0 \<le> cursorIdx s" "0 \<le> startIdx s"
  shows "sessionInv (resetCursorAfterFilter s)"
proof (cases "filteredChoices s = []")
  case True
  then show ?thesis
    by (simp add: sessionInv_def boundsOK_def windowOK_def reset_sel reset_cursorIdx
        reset_startIdx reset_endIdx)
next
  case False
  then have n: "0 < int (length (filteredChoices s))" by simp
  have c: "cursorIdx (resetCursorAfterFilter s) =
     (if cursorIdx s \<ge> int (length (filteredChoices s))
      then int (length (filteredChoices s)) - 1 else cursorIdx s)"
    using False by (simp add: reset_cursorIdx)
  have st: "startIdx (resetCursorAfterFilter s) =
     (let s1 = (if cursorIdx (resetCursorAfterFilter s) < startIdx s
                then cursorIdx (resetCursorAfterFilter s) else startIdx s)
      in if cursorIdx (resetCursorAfterFilter s) \<ge> s1 + pageSize s
         then max 0 (cursorIdx (resetCursorAfterFilter s) - pageSize s + 1) else s1)"
    using False by (subst reset_startIdx) (simp add: Let_def)
  have e: "endIdx (resetCursorAfterFilter s) =
     min (startIdx (resetCursorAfterFilter s) + pageSize s) (int (length (filteredChoices s)))"
    using False by (simp add: reset_endIdx)
  from window_arith [OF assms n c st e] False show ?thesis
    by (simp add: sessionInv_def boundsOK_def windowOK_def reset_sel)
qed

lemma inv_navigateUp: "sessionInv s \<Longrightarrow> sessionInv (navigateUp s)"
  by (auto simp: sessionInv_def boundsOK_def windowOK_def navigateUp_def Let_def min_def
      split: if_splits)

lemma inv_navigateDown: "sessionInv s \<Longrightarrow> sessionInv (navigateDown s)"
  by (auto simp: sessionInv_def boundsOK_def windowOK_def navigateDown_def Let_def max_def
      split: if_splits)

text \<open>Under the invariant \<^verbatim>\<open>redraw\<close> does not panic, and draws one frame.\<close>

lemma redraw_Continue:
  "sessionInv s \<Longrightarrow>
     redraw s = Continue (s\<lparr>stdOutput := stdOutput s @ [Frame (cursorIdx s) (startIdx s) (endIdx s)]\<rparr>)"
  by (auto simp: sessionInv_def boundsOK_def redraw_def)

lemma sessionInv_upd:
  "sessionInv (s\<lparr>valMessage := m\<rparr>) = sessionInv s"
  "sessionInv (s\<lparr>searchMode := b\<rparr>) = sessionInv s"
  "sessionInv (s\<lparr>stdOutput := w\<rparr>) = sessionInv s"
  "sessionInv (s\<lparr>interrupted := b\<rparr>) = sessionInv s"
  by (simp_all add: sessionInv_def boundsOK_def windowOK_def)

lemma sessionInv_ss_upd: "sessionInv (s\<lparr>ss := x\<rparr>) = sessionInv s"
  by (simp add: sessionInv_def boundsOK_def windowOK_def)

lemma sessionInv_ms_upd: "sessionInv (s\<lparr>ms := x\<rparr>) = sessionInv s"
  by (simp add: sessionInv_def boundsOK_def windowOK_def)

lemma redraw_inv: "sessionInv s \<Longrightarrow> flowInv sessionInv (redraw s)"
  by (simp add: redraw_Continue flowInv_def sessionInv_upd)

lemma listen_inv:
  assumes step: "\<And>k s. P s \<Longrightarrow> flowInv P (callback k s)"
  shows "P s \<Longrightarrow> flowInv P (listen callback s es)"
proof (induction es arbitrary: s)
  case Nil
  then show ?case by (simp add: flowInv_def)
next
  case (Cons e es)
  show ?case
  proof (cases e)
    case SourceError
    with Cons.prems show ?thesis by (simp add: flowInv_def)
  next
    case (Pressed k)
    from step [OF Cons.prems, of k] Cons.IH show ?thesis
      by (cases "callback k s") (simp_all add: Pressed flowInv_def)
  qed
qed

lemma at_inv: "sessionInv s \<Longrightarrow> filteredChoices s \<noteq> [] \<Longrightarrow>
  at (filteredChoices s) (cursorIdx s) = Some (filteredChoices s ! nat (cursorIdx s))"
  by (simp add: sessionInv_def boundsOK_def at_def)

lemma inv_ss_search: "sessionInv s \<Longrightarrow> sessionInv (ss_search uni q s)"
  unfolding ss_search_def
  by (rule inv_resetCursorAfterFilter) (simp_all add: sessionInv_def boundsOK_def)

lemma inv_ms_search: "sessionInv s \<Longrightarrow> sessionInv (ms_search uni q s)"
  unfolding ms_search_def
  by (rule inv_resetCursorAfterFilter) (simp_all add: sessionInv_def boundsOK_def)

lemma inv_ss_space:
  assumes "sessionInv s"
  shows "flowInv sessionInv (ss_space s)"
proof (cases "filteredChoices s = []")
  case True
  with assms show ?thesis
    by (simp add: ss_space_def redraw_inv sessionInv_upd)
next
  case False
  with assms show ?thesis
    by (simp add: ss_space_def at_inv redraw_inv sessionInv_upd sessionInv_ss_upd)
qed

lemma inv_ss_enter: "sessionInv s \<Longrightarrow> flowInv sessionInv (ss_enter s)"
  by (simp add: ss_enter_def redraw_inv sessionInv_upd) (simp add: flowInv_def)

lemma inv_ss_callback:
  assumes "sessionInv s"
  shows "flowInv sessionInv (ss_callback uni key s)"
proof (cases "Code key")
  case CtrlC
  with assms show ?thesis by (simp add: ss_callback_def flowInv_def sessionInv_upd)
next
  case RuneKey
  with assms show ?thesis
    by (cases "Runes key")
      (simp_all add: ss_callback_def Let_def redraw_inv inv_navigateUp inv_navigateDown
        inv_ss_search)
next
  case Backspace
  with assms show ?thesis
    by (simp add: ss_callback_def redraw_inv inv_ss_search)
qed (use assms in \<open>simp_all add: ss_callback_def redraw_inv inv_navigateUp inv_navigateDown
      inv_ss_enter inv_ss_space sessionInv_upd\<close>)

lemma inv_ms_space:
  assumes "sessionInv s"
  shows "flowInv sessionInv (ms_space s)"
proof (cases "filteredChoices s = []")
  case True
  with assms show ?thesis
    by (simp add: ms_space_def redraw_inv sessionInv_upd)
next
  case False
  with assms show ?thesis
    by (simp add: ms_space_def at_inv redraw_inv sessionInv_upd sessionInv_ms_upd Let_def)
qed

lemma inv_ms_enter: "sessionInv s \<Longrightarrow> flowInv sessionInv (ms_enter s)"
  by (simp add: ms_enter_def redraw_inv sessionInv_upd) (simp add: flowInv_def)

lemma inv_ms_callback:
  assumes "sessionInv s"
  shows "flowInv sessionInv (ms_callback uni key s)"
proof (cases "Code key")
  case CtrlC
  with assms show ?thesis by (simp add: ms_callback_def flowInv_def sessionInv_upd)
next
  case RuneKey
  with assms show ?thesis
    by (cases "Runes key")
      (simp_all add: ms_callback_def Let_def redraw_inv inv_navigateUp inv_navigateDown
        inv_ms_search)
next
  case Backspace
  with assms show ?thesis
    by (simp add: ms_callback_def redraw_inv inv_ms_search)
qed (use assms in \<open>simp_all add: ms_callback_def redraw_inv inv_navigateUp inv_navigateDown
      inv_ms_enter inv_ms_space sessionInv_upd\<close>)

lemma inv_ss_setup: "sessionInv (ss_setup cfg w)"
  by (cases "at (choices cfg) (defaultChoice cfg)")
    (simp_all add: ss_setup_def ss_init_def Let_def sessionInv_def boundsOK_def windowOK_def
      Suc_le_eq)

lemma inv_ms_setup: "sessionInv (ms_setup cfg w)"
  by (simp add: ms_setup_def ms_init_def Let_def sessionInv_def boundsOK_def windowOK_def Suc_le_eq)

lemma flowInv_state: "flowInv P r \<Longrightarrow> P (flowState r)"
  by (cases r) (simp_all add: flowInv_def)

lemma inv_ss_session: "flowInv sessionInv (ss_session uni cfg w events)"
proof -
  have "flowInv sessionInv (redraw (ss_setup cfg w))"
    by (intro redraw_inv inv_ss_setup)
  then show ?thesis
    by (cases "redraw (ss_setup cfg w)")
      (simp_all add: ss_session_def flowInv_def [of _ "Continue _"] listen_inv inv_ss_callback)
qed

lemma inv_ms_session: "flowInv sessionInv (ms_session uni cfg w events)"
proof -
  have "flowInv sessionInv (redraw (ms_setup cfg w))"
    by (intro redraw_inv inv_ms_setup)
  then show ?thesis
    by (cases "redraw (ms_setup cfg w)")
      (simp_all add: ms_session_def flowInv_def [of _ "Continue _"] listen_inv inv_ms_callback)
qed

section \<open>What a session keeps\<close>

lemma nav_sel:
  "pageSize (navigateUp s) = pageSize s" "filteredChoices (navigateUp s) = filteredChoices s"
  "pageSize (navigateDown s) = pageSize s" "filteredChoices (navigateDown s) = filteredChoices s"
  "interrupted (navigateUp s) = interrupted s" "interrupted (navigateDown s) = interrupted s"
  "interrupted (resetCursorAfterFilter s) = interrupted s"
  by (simp_all add: navigateUp_def navigateDown_def resetCursorAfterFilter_def Let_def)

lemma nav_ss:
  "ss (navigateUp s) = ss s" "ss (navigateDown s) = ss s" "ss (resetCursorAfterFilter s) = ss s"
  by (simp_all add: navigateUp_def navigateDown_def resetCursorAfterFilter_def Let_def)

lemma nav_ms:
  "ms (navigateUp s) = ms s" "ms (navigateDown s) = ms s" "ms (resetCursorAfterFilter s) = ms s"
  "minRequired (navigateUp s) = minRequired s" "minRequired (navigateDown s) = minRequired s"
  "minRequired (resetCursorAfterFilter s) = minRequired s"
  "maxAllowed (navigateUp s) = maxAllowed s" "maxAllowed (navigateDown s) = maxAllowed s"
  "maxAllowed (resetCursorAfterFilter s) = maxAllowed s"
  by (simp_all add: navigateUp_def navigateDown_def resetCursorAfterFilter_def Let_def)

lemma set_filterChoices: "set (filterChoices uni cs q) \<subseteq> set cs"
  by (simp add: filterChoices_filter)

lemma ss_frame_nav:
  "ss_frame cfg s \<Longrightarrow> ss_frame cfg (navigateUp s)"
  "ss_frame cfg s \<Longrightarrow> ss_frame cfg (navigateDown s)"
  by (simp_all add: ss_frame_def nav_sel nav_ss)

lemma ss_frame_upd:
  "ss_frame cfg (s\<lparr>valMessage := m\<rparr>) = ss_frame cfg s"
  "ss_frame cfg (s\<lparr>searchMode := b\<rparr>) = ss_frame cfg s"
  "ss_frame cfg (s\<lparr>stdOutput := w\<rparr>) = ss_frame cfg s"
  "ss_frame cfg (s\<lparr>interrupted := b\<rparr>) = ss_frame cfg s"
  by (simp_all add: ss_frame_def)

lemma ss_frame_select:
  "ss_frame cfg s \<Longrightarrow> ss_frame cfg (s\<lparr>ss := (ss s)\<lparr>selectedChoice := c\<rparr>\<rparr>)"
  by (simp add: ss_frame_def)

lemma ss_frame_search: "ss_frame cfg s \<Longrightarrow> ss_frame cfg (ss_search uni q s)"
  by (simp add: ss_frame_def ss_search_def reset_sel nav_ss set_filterChoices)

lemma ms_frame_nav:
  "ms_frame cfg s \<Longrightarrow> ms_frame cfg (navigateUp s)"
  "ms_frame cfg s \<Longrightarrow> ms_frame cfg (navigateDown s)"
  by (simp_all add: ms_frame_def nav_sel nav_ms)

lemma ms_frame_upd:
  "ms_frame cfg (s\<lparr>valMessage := m\<rparr>) = ms_frame cfg s"
  "ms_frame cfg (s\<lparr>searchMode := b\<rparr>) = ms_frame cfg s"
  "ms_frame cfg (s\<lparr>stdOutput := w\<rparr>) = ms_frame cfg s"
  "ms_frame cfg (s\<lparr>interrupted := b\<rparr>) = ms_frame cfg s"
  by (simp_all add: ms_frame_def)

lemma toggleSelection_sel:
  "choices (toggleSelection c m) = choices m" "optional (toggleSelection c m) = optional m"
  "pageSizeCfg (toggleSelection c m) = pageSizeCfg m"
  "defaultChoices (toggleSelection c m) = defaultChoices m"
  "minSelectedCount (toggleSelection c m) = minSelectedCount m"
  "maxSelectedCount (toggleSelection c m) = maxSelectedCount m"
  by (simp_all add: toggleSelection_def split: option.split)

lemma ms_frame_toggle:
  "ms_frame cfg s \<Longrightarrow> ms_frame cfg (s\<lparr>ms := toggleSelection c (ms s)\<rparr>)"
  by (simp add: ms_frame_def toggleSelection_sel)

lemma ms_frame_search: "ms_frame cfg s \<Longrightarrow> ms_frame cfg (ms_search uni q s)"
  by (simp add: ms_frame_def ms_search_def reset_sel nav_ms set_filterChoices)

text \<open>A step under the invariant: the frame drawn, and what the callback did before.\<close>

lemma flowInv_redraw:
  "sessionInv s \<Longrightarrow> P (s\<lparr>stdOutput := stdOutput s @ [Frame (cursorIdx s) (startIdx s) (endIdx s)]\<rparr>)
     \<Longrightarrow> flowInv P (redraw s)"
  by (simp add: redraw_Continue flowInv_def)

lemma frame_ss_space:
  assumes "sessionInv s" "ss_frame cfg s"
  shows "flowInv (ss_frame cfg) (ss_space s)"
proof (cases "filteredChoices s = []")
  case True
  with assms show ?thesis
    by (simp add: ss_space_def flowInv_redraw sessionInv_upd ss_frame_upd)
next
  case False
  with assms show ?thesis
    by (simp add: ss_space_def at_inv flowInv_redraw sessionInv_upd sessionInv_ss_upd
        ss_frame_upd ss_frame_select)
qed

lemma frame_ss_enter:
  "sessionInv s \<Longrightarrow> ss_frame cfg s \<Longrightarrow> flowInv (ss_frame cfg) (ss_enter s)"
  by (simp add: ss_enter_def flowInv_redraw sessionInv_upd ss_frame_upd) (simp add: flowInv_def)

lemma frame_ss_callback:
  assumes "sessionInv s" "ss_frame cfg s"
  shows "flowInv (ss_frame cfg) (ss_callback uni key s)"
proof (cases "Code key")
  case CtrlC
  with assms show ?thesis by (simp add: ss_callback_def flowInv_def ss_frame_upd)
next
  case RuneKey
  with assms show ?thesis
    by (cases "Runes key")
      (simp_all add: ss_callback_def Let_def flowInv_redraw inv_navigateUp inv_navigateDown
        inv_ss_search ss_frame_upd ss_frame_nav ss_frame_search)
next
  case Backspace
  with assms show ?thesis
    by (simp add: ss_callback_def flowInv_redraw inv_ss_search ss_frame_upd ss_frame_search)
qed (use assms in \<open>simp_all add: ss_callback_def flowInv_redraw inv_navigateUp inv_navigateDown
      frame_ss_enter frame_ss_space sessionInv_upd ss_frame_upd ss_frame_nav\<close>)

lemma frame_ms_space:
  assumes "sessionInv s" "ms_frame cfg s"
  shows "flowInv (ms_frame cfg) (ms_space s)"
proof (cases "filteredChoices s = []")
  case True
  with assms show ?thesis
    by (simp add: ms_space_def flowInv_redraw sessionInv_upd ms_frame_upd)
next
  case False
  with assms show ?thesis
    by (simp add: ms_space_def at_inv flowInv_redraw sessionInv_upd sessionInv_ms_upd
        ms_frame_upd ms_frame_toggle Let_def)
qed

lemma frame_ms_enter:
  "sessionInv s \<Longrightarrow> ms_frame cfg s \<Longrightarrow> flowInv (ms_frame cfg) (ms_enter s)"
  by (simp add: ms_enter_def flowInv_redraw sessionInv_upd ms_frame_upd) (simp add: flowInv_def)

lemma frame_ms_callback:
  assumes "sessionInv s" "ms_frame cfg s"
  shows "flowInv (ms_frame cfg) (ms_callback uni key s)"
proof (cases "Code key")
  case CtrlC
  with assms show ?thesis by (simp add: ms_callback_def flowInv_def ms_frame_upd)
next
  case RuneKey
  with assms show ?thesis
    by (cases "Runes key")
      (simp_all add: ms_callback_def Let_def flowInv_redraw inv_navigateUp inv_navigateDown
        inv_ms_search ms_frame_upd ms_frame_nav ms_frame_search)
next
  case Backspace
  with assms show ?thesis
    by (simp add: ms_callback_def flowInv_redraw inv_ms_search ms_frame_upd ms_frame_search)
qed (use assms in \<open>simp_all add: ms_callback_def flowInv_redraw inv_navigateUp inv_navigateDown
      frame_ms_enter frame_ms_space sessionInv_upd ms_frame_upd ms_frame_nav\<close>)

lemma flowInv_conj: "flowInv P r \<Longrightarrow> flowInv Q r \<Longrightarrow> flowInv (\<lambda>s. P s \<and> Q s) r"
  by (cases r) (simp_all add: flowInv_def)

lemma ss_frame_setup: "ss_frame cfg (ss_setup cfg w)"
  by (cases "at (choices cfg) (defaultChoice cfg)")
    (simp_all add: ss_setup_def ss_init_def Let_def ss_frame_def)

lemma ms_frame_setup: "ms_frame cfg (ms_setup cfg w)"
  by (simp add: ms_setup_def ms_init_def Let_def ms_frame_def)

lemma reach_ss_callback:
  "sessionInv s \<and> ss_frame cfg s \<Longrightarrow>
     flowInv (\<lambda>s. sessionInv s \<and> ss_frame cfg s) (ss_callback uni k s)"
  by (simp add: flowInv_conj inv_ss_callback frame_ss_callback)

lemma reach_ms_callback:
  "sessionInv s \<and> ms_frame cfg s \<Longrightarrow>
     flowInv (\<lambda>s. sessionInv s \<and> ms_frame cfg s) (ms_callback uni k s)"
  by (simp add: flowInv_conj inv_ms_callback frame_ms_callback)

lemma reach_ss_session:
  "flowInv (\<lambda>s. sessionInv s \<and> ss_frame cfg s) (ss_session uni cfg w events)"
proof -
  let ?P = "\<lambda>s. sessionInv s \<and> ss_frame cfg s"
  have "flowInv ?P (redraw (ss_setup cfg w))"
    by (simp add: flowInv_redraw inv_ss_setup sessionInv_upd ss_frame_upd ss_frame_setup)
  then show ?thesis
  proof (cases "redraw (ss_setup cfg w)")
    case (Continue s0)
    assume "flowInv ?P (redraw (ss_setup cfg w))"
    with Continue have "?P s0" by (simp add: flowInv_def)
    then have "flowInv ?P (listen (ss_callback uni) s0 events)"
      by (intro listen_inv [where P = ?P and callback = "ss_callback uni"] reach_ss_callback)
    with Continue show ?thesis by (simp add: ss_session_def)
  qed (simp_all add: ss_session_def)
qed

lemma reach_ms_session:
  "flowInv (\<lambda>s. sessionInv s \<and> ms_frame cfg s) (ms_session uni cfg w events)"
proof -
  let ?P = "\<lambda>s. sessionInv s \<and> ms_frame cfg s"
  have "flowInv ?P (redraw (ms_setup cfg w))"
    by (simp add: flowInv_redraw inv_ms_setup sessionInv_upd ms_frame_upd ms_frame_setup)
  then show ?thesis
  proof (cases "redraw (ms_setup cfg w)")
    case (Continue s0)
    assume "flowInv ?P (redraw (ms_setup cfg w))"
    with Continue have "?P s0" by (simp add: flowInv_def)
    then have "flowInv ?P (listen (ms_callback uni) s0 events)"
      by (intro listen_inv [where P = ?P and callback = "ms_callback uni"] reach_ms_callback)
    with Continue show ?thesis by (simp add: ms_session_def)
  qed (simp_all add: ms_session_def)
qed

lemma windowOK_reached:
  assumes "sessionInv s" "pageSize s = min p (int (length cs))" "set (filteredChoices s) \<subseteq> set cs"
    and "1 \<le> p"
  shows "windowOK s"
proof (cases "cs = []")
  case True
  with assms(3) show ?thesis by (simp add: windowOK_def)
next
  case False
  then have "1 \<le> int (length cs)" by (simp add: Suc_le_eq)
  with assms(2,4) have "1 \<le> pageSize s" by simp
  with assms(1) show ?thesis by (simp add: sessionInv_def)
qed

text \<open>
  Claim C5, as amended. For both prompts, when the configured page size is at least 1:
  after every sequence of key events, whenever the filtered list is not empty, the cursor
  is an index of it, \<open>startIdx \<le> cursorIdx < endIdx\<close>, and
  \<open>endIdx - startIdx \<le> pageSize\<close>.
\<close>

theorem window_invariant:
  assumes "1 \<le> pageSizeCfg cfg" and "1 \<le> pageSizeCfg cfg'"
  shows "windowOK (flowState (ss_session uni cfg w events)) \<and>
         windowOK (flowState (ms_session uni cfg' w' events'))"
proof
  from reach_ss_session [of cfg uni w events, THEN flowInv_state]
  show "windowOK (flowState (ss_session uni cfg w events))"
    by (intro windowOK_reached [where cs = "choices cfg" and p = "pageSizeCfg cfg"] assms)
      (simp_all add: ss_frame_def ss_init_def Let_def)
  from reach_ms_session [of cfg' uni w' events', THEN flowInv_state]
  show "windowOK (flowState (ms_session uni cfg' w' events'))"
    by (intro windowOK_reached [where cs = "choices cfg'" and p = "pageSizeCfg cfg'"] assms)
      (simp_all add: ms_frame_def ms_init_def Let_def)
qed

text \<open>
  Claim C5 as stated fails for a page size of 0, which \<^verbatim>\<open>WithPageSize\<close> accepts: after
  one step down over two choices the cursor is 1 and the window is \<open>[2, 2)\<close>.
\<close>

theorem window_invariant_counterexample:
  "\<not> windowOK (flowState (ss_session id
       \<lparr>choices = [enabledChoice ''a'' ''Apple'', enabledChoice ''b'' ''Banana''],
        optional = False, pageSizeCfg = 0, defaultChoice = - 1, selectedChoice = Choice0\<rparr>
       [] [press Down]))"
  by code_simp

text \<open>The theorem at a page of two rows over three choices, in both prompts.\<close>

theorem window_invariant_witness:
  "1 \<le> pageSizeCfg \<lparr>choices = [enabledChoice ''a'' ''Apple'', enabledChoice ''b'' ''Banana'',
          enabledChoice ''c'' ''Cherry''],
        optional = False, pageSizeCfg = 2, defaultChoice = 0, selectedChoice = Choice0\<rparr> \<and>
   1 \<le> pageSizeCfg \<lparr>choices = [enabledChoice ''a'' ''Apple'', enabledChoice ''b'' ''Banana'',
          enabledChoice ''c'' ''Cherry''],
        optional = False, pageSizeCfg = 2, defaultChoices = [], minSelectedCount = 0,
        maxSelectedCount = 0, selectedChoices = []\<rparr> \<and>
   windowOK (flowState (ss_session id
       \<lparr>choices = [enabledChoice ''a'' ''Apple'', enabledChoice ''b'' ''Banana'',
          enabledChoice ''c'' ''Cherry''],
        optional = False, pageSizeCfg = 2, defaultChoice = 0, selectedChoice = Choice0\<rparr>
       [] [press Down, press Down, press Tab, typeRune 97, press Backspace, press Up])) \<and>
   windowOK (flowState (ms_session id
       \<lparr>choices = [enabledChoice ''a'' ''Apple'', enabledChoice ''b'' ''Banana'',
          enabledChoice ''c'' ''Cherry''],
        optional = False, pageSizeCfg = 2, defaultChoices = [], minSelectedCount = 0,
        maxSelectedCount = 0, selectedChoices = []\<rparr>
       [] [press Down, press Down, press Tab, typeRune 97, press Backspace, press Up]))"
proof -
  define cs where "cs = [enabledChoice ''a'' ''Apple'', enabledChoice ''b'' ''Banana'',
          enabledChoice ''c'' ''Cherry'']"
  define c1 where "c1 = \<lparr>choices = cs,
        optional = False, pageSizeCfg = 2, defaultChoice = 0, selectedChoice = Choice0\<rparr>"
  define c2 where "c2 = \<lparr>choices = cs,
        optional = False, pageSizeCfg = 2, defaultChoices = [], minSelectedCount = 0,
        maxSelectedCount = 0, selectedChoices = []\<rparr>"
  have h1: "1 \<le> pageSizeCfg c1" and h2: "1 \<le> pageSizeCfg c2"
    by (simp_all add: c1_def c2_def)
  note t = window_invariant [OF h1 h2]
  show ?thesis
    unfolding cs_def [symmetric] c1_def [symmetric] c2_def [symmetric]
    by (intro conjI h1 h2 t [THEN conjunct1] t [THEN conjunct2])
qed

section \<open>Sessions, one key at a time\<close>

lemma listen_append:
  "listen callback s es = Continue s' \<Longrightarrow> listen callback s (es @ es') = listen callback s' es'"
proof (induction es arbitrary: s)
  case Nil
  then show ?case by simp
next
  case (Cons e es)
  show ?case
  proof (cases e)
    case SourceError
    with Cons.prems show ?thesis by simp
  next
    case (Pressed k)
    with Cons.prems Cons.IH show ?thesis
      by (cases "callback k s") simp_all
  qed
qed

lemma listen_single: "listen callback s [Pressed k] = callback k s"
  by (cases "callback k s") simp_all

lemma ss_session_append:
  assumes "ss_session uni cfg w es = Continue s"
  shows "ss_session uni cfg w (es @ es') = listen (ss_callback uni) s es'"
  using assms
  by (cases "redraw (ss_setup cfg w)") (simp_all add: ss_session_def listen_append)

lemma ms_session_append:
  assumes "ms_session uni cfg w es = Continue s"
  shows "ms_session uni cfg w (es @ es') = listen (ms_callback uni) s es'"
  using assms
  by (cases "redraw (ms_setup cfg w)") (simp_all add: ms_session_def listen_append)

lemma ss_reached:
  "ss_session uni cfg w es = Continue s \<Longrightarrow> sessionInv s \<and> ss_frame cfg s"
  using reach_ss_session [of cfg uni w es] by (simp add: flowInv_def)

lemma ms_reached:
  "ms_session uni cfg w es = Continue s \<Longrightarrow> sessionInv s \<and> ms_frame cfg s"
  using reach_ms_session [of cfg uni w es] by (simp add: flowInv_def)

text \<open>Only \<^verbatim>\<open>CtrlC\<close> sets \<^verbatim>\<open>interrupted\<close>, and it stops the loop.\<close>

lemma listen_Continue:
  assumes step: "\<And>k s s'. P s \<Longrightarrow> callback k s = Continue s' \<Longrightarrow> P s'"
  shows "P s \<Longrightarrow> listen callback s es = Continue s' \<Longrightarrow> P s'"
proof (induction es arbitrary: s)
  case Nil
  then show ?case by simp
next
  case (Cons e es)
  show ?case
  proof (cases e)
    case SourceError
    with Cons.prems show ?thesis by simp
  next
    case (Pressed k)
    show ?thesis
    proof (cases "callback k s")
      case (Continue s1)
      with Cons.prems Pressed have "listen callback s1 es = Continue s'" by simp
      with step [OF Cons.prems(1) Continue] show ?thesis by (rule Cons.IH)
    qed (use Cons.prems Pressed in simp_all)
  qed
qed

lemma redraw_interrupted: "redraw s = Continue s' \<Longrightarrow> interrupted s' = interrupted s"
  by (auto simp: redraw_def split: if_splits)

lemma ss_space_interrupted: "ss_space s = Continue s' \<Longrightarrow> interrupted s' = interrupted s"
  by (auto simp: ss_space_def split: if_splits option.splits dest!: redraw_interrupted)

lemma ss_callback_interrupted:
  assumes "ss_callback uni key s = Continue s'"
  shows "interrupted s' = interrupted s"
proof (cases "Code key")
  case RuneKey
  with assms show ?thesis
    by (cases "Runes key")
      (auto simp: ss_callback_def Let_def ss_search_def nav_sel split: if_splits
        dest!: redraw_interrupted)
next
  case Enter
  with assms show ?thesis
    by (auto simp: ss_callback_def ss_enter_def split: if_splits dest!: redraw_interrupted)
qed (use assms in \<open>auto simp: ss_callback_def ss_search_def nav_sel ss_space_interrupted
      split: if_splits dest!: redraw_interrupted\<close>)

lemma ss_running:
  assumes "ss_session uni cfg w es = Continue s"
  shows "\<not> interrupted s"
proof (cases "redraw (ss_setup cfg w)")
  case (Continue s0)
  have "\<not> interrupted (ss_setup cfg w)"
    by (cases "at (choices cfg) (defaultChoice cfg)")
      (simp_all add: ss_setup_def ss_init_def Let_def)
  with Continue have s0: "\<not> interrupted s0" by (simp add: redraw_interrupted)
  from assms Continue have "listen (ss_callback uni) s0 es = Continue s"
    by (simp add: ss_session_def)
  with s0 show ?thesis
    by (rule listen_Continue [where P = "\<lambda>s. \<not> interrupted s", rotated])
      (simp add: ss_callback_interrupted)
qed (use assms in \<open>simp_all add: ss_session_def\<close>)

lemma ss_Render_session:
  "makeSpace (9 + pageSize (ss_init cfg)) t = (w, None) \<Longrightarrow> choices cfg \<noteq> [] \<Longrightarrow>
     ss_Render uni cfg t es = ss_finish (ss_session uni cfg w es)"
  by (simp add: ss_Render_def)

section \<open>Single select: confirming\<close>

lemma ss_enter_step:
  assumes "ss_session uni cfg w events = Continue s"
  shows "ss_session uni cfg w (events @ [press Enter]) =
     (if (filteredChoices s = [] \<or> selectedChoice (ss s) = Choice0) \<and> \<not> optional cfg
      then Continue (s\<lparr>valMessage := ''No selection made (required)'',
             stdOutput := stdOutput s @ [Frame (cursorIdx s) (startIdx s) (endIdx s)]\<rparr>)
      else Stop s)"
proof -
  from ss_reached [OF assms] have inv: "sessionInv s" and opt: "optional (ss s) = optional cfg"
    by (simp_all add: ss_frame_def)
  have "ss_session uni cfg w (events @ [press Enter])
        = ss_callback uni \<lparr>Code = Enter, Runes = []\<rparr> s"
    by (simp only: ss_session_append [OF assms] listen_single)
  then have "ss_session uni cfg w (events @ [press Enter]) = ss_enter s"
    by (simp add: ss_callback_def)
  with inv opt show ?thesis
    by (simp add: ss_enter_def redraw_Continue sessionInv_upd)
qed

text \<open>Confirm from a waiting session, as \<^verbatim>\<open>Render\<close> reports it.\<close>

lemma ss_enter_Render:
  assumes "makeSpace (9 + pageSize (ss_init cfg)) t = (w, None)" and "choices cfg \<noteq> []"
    and "ss_session uni cfg w events = Continue s"
  shows "(\<not> optional cfg \<and> (selectedChoice (ss s) = Choice0 \<or> filteredChoices s = []) \<longrightarrow>
            ss_session uni cfg w (events @ [press Enter]) =
              Continue (s\<lparr>valMessage := ''No selection made (required)'',
                stdOutput := stdOutput s @ [Frame (cursorIdx s) (startIdx s) (endIdx s)]\<rparr>) \<and>
            snd (ss_Render uni cfg t (events @ [press Enter])) = Waiting) \<and>
         (optional cfg \<and> selectedChoice (ss s) = Choice0 \<longrightarrow>
            snd (ss_Render uni cfg t (events @ [press Enter])) = Returns (Inr Choice0)) \<and>
         (selectedChoice (ss s) \<noteq> Choice0 \<and> (filteredChoices s \<noteq> [] \<or> optional cfg) \<longrightarrow>
            snd (ss_Render uni cfg t (events @ [press Enter])) =
              Returns (Inr (selectedChoice (ss s))))"
proof -
  note r = ss_Render_session [OF assms(1,2), of uni "events @ [press Enter]"]
  note e = ss_enter_step [OF assms(3)]
  from ss_running [OF assms(3)] have i: "\<not> interrupted s" .
  show ?thesis
  proof (intro conjI impI)
    assume a: "\<not> optional cfg \<and> (selectedChoice (ss s) = Choice0 \<or> filteredChoices s = [])"
    with e show c: "ss_session uni cfg w (events @ [press Enter]) =
        Continue (s\<lparr>valMessage := ''No selection made (required)'',
          stdOutput := stdOutput s @ [Frame (cursorIdx s) (startIdx s) (endIdx s)]\<rparr>)"
      by auto
    show "snd (ss_Render uni cfg t (events @ [press Enter])) = Waiting"
      by (simp only: r c) (simp add: ss_finish_def)
  next
    assume a: "optional cfg \<and> selectedChoice (ss s) = Choice0"
    with e have "ss_session uni cfg w (events @ [press Enter]) = Stop s" by simp
    with i a show "snd (ss_Render uni cfg t (events @ [press Enter])) = Returns (Inr Choice0)"
      by (simp add: r ss_finish_def)
  next
    assume a: "selectedChoice (ss s) \<noteq> Choice0 \<and> (filteredChoices s \<noteq> [] \<or> optional cfg)"
    with e have "ss_session uni cfg w (events @ [press Enter]) = Stop s" by auto
    with i show "snd (ss_Render uni cfg t (events @ [press Enter])) =
        Returns (Inr (selectedChoice (ss s)))"
      by (simp add: r ss_finish_def)
  qed
qed

text \<open>
  Claim C3. Confirm in single select looks at the search filter: with Apple selected and
  the query \<open>z\<close>, which matches no label, Confirm on a prompt that is not optional is
  refused with the message \<open>No selection made (required)\<close> and \<^verbatim>\<open>Render\<close> does not
  return, although a choice is selected. After the same keys an optional single select
  returns Apple, and the multi select returns the list of Apple alone.
\<close>

theorem confirm_refused_under_empty_filter:
  "selectedChoice (ss (flowState (ss_session id
       \<lparr>choices = [enabledChoice ''a'' ''Apple'', enabledChoice ''b'' ''Banana''],
        optional = False, pageSizeCfg = 10, defaultChoice = - 1, selectedChoice = Choice0\<rparr>
       [] [press Space, press Tab, typeRune 122, press Enter])))
     = enabledChoice ''a'' ''Apple'' \<and>
   valMessage (flowState (ss_session id
       \<lparr>choices = [enabledChoice ''a'' ''Apple'', enabledChoice ''b'' ''Banana''],
        optional = False, pageSizeCfg = 10, defaultChoice = - 1, selectedChoice = Choice0\<rparr>
       [] [press Space, press Tab, typeRune 122, press Enter]))
     = ''No selection made (required)'' \<and>
   snd (ss_Render id
       \<lparr>choices = [enabledChoice ''a'' ''Apple'', enabledChoice ''b'' ''Banana''],
        optional = False, pageSizeCfg = 10, defaultChoice = - 1, selectedChoice = Choice0\<rparr>
       \<lparr>termWidth = 80, termHeight = 24, termErr = False\<rparr>
       [press Space, press Tab, typeRune 122, press Enter]) = Waiting \<and>
   snd (ss_Render id
       \<lparr>choices = [enabledChoice ''a'' ''Apple'', enabledChoice ''b'' ''Banana''],
        optional = True, pageSizeCfg = 10, defaultChoice = - 1, selectedChoice = Choice0\<rparr>
       \<lparr>termWidth = 80, termHeight = 24, termErr = False\<rparr>
       [press Space, press Tab, typeRune 122, press Enter])
     = Returns (Inr (enabledChoice ''a'' ''Apple'')) \<and>
   snd (ms_Render id
       \<lparr>choices = [enabledChoice ''a'' ''Apple'', enabledChoice ''b'' ''Banana''],
        optional = False, pageSizeCfg = 7, defaultChoices = [], minSelectedCount = 0,
        maxSelectedCount = 0, selectedChoices = []\<rparr>
       \<lparr>termWidth = 80, termHeight = 24, termErr = False\<rparr>
       [press Space, press Tab, typeRune 122, press Enter])
     = Returns (Inr [enabledChoice ''a'' ''Apple''])"
  by code_simp

section \<open>Defaults and disabled choices\<close>


lemma ss_setup_default:
  assumes "0 \<le> defaultChoice cfg" "defaultChoice cfg < int (length (choices cfg))"
  shows "ss (ss_setup cfg w) = cfg\<lparr>selectedChoice := choices cfg ! nat (defaultChoice cfg)\<rparr>"
    and "filteredChoices (ss_setup cfg w) = choices cfg"
  using assms by (simp_all add: ss_setup_def ss_init_def Let_def at_def)



section \<open>Single select: toggling\<close>

lemma ss_space_step:
  assumes "ss_session uni cfg w events = Continue s" and "filteredChoices s \<noteq> []"
    and "\<not> Disabled (filteredChoices s ! nat (cursorIdx s))"
  shows "ss_session uni cfg w (events @ [press Space]) =
     Continue (s\<lparr>ss := (ss s)\<lparr>selectedChoice :=
                 (if Value (selectedChoice (ss s)) = Value (filteredChoices s ! nat (cursorIdx s))
                  then Choice0 else filteredChoices s ! nat (cursorIdx s))\<rparr>,
               valMessage := [],
               stdOutput := stdOutput s @ [Frame (cursorIdx s) (startIdx s) (endIdx s)]\<rparr>)"
proof -
  from ss_reached [OF assms(1)] have inv: "sessionInv s" by simp
  have "ss_session uni cfg w (events @ [press Space])
        = ss_callback uni \<lparr>Code = Space, Runes = []\<rparr> s"
    by (simp only: ss_session_append [OF assms(1)] listen_single)
  then have "ss_session uni cfg w (events @ [press Space]) = ss_space s"
    by (simp add: ss_callback_def)
  with inv assms(2,3) show ?thesis
    by (simp add: ss_space_def at_inv redraw_Continue sessionInv_upd sessionInv_ss_upd)
qed

text \<open>Confirm as the first key, when the default index points at a choice that is not
  the zero value.\<close>

lemma ss_default_confirmed:
  assumes "makeSpace (9 + pageSize (ss_init cfg)) t = (w, None)"
    and "0 \<le> defaultChoice cfg" "defaultChoice cfg < int (length (choices cfg))"
    and "choices cfg ! nat (defaultChoice cfg) \<noteq> Choice0"
  shows "snd (ss_Render uni cfg t [press Enter])
           = Returns (Inr (choices cfg ! nat (defaultChoice cfg)))"
proof -
  from assms(2,3) have ne: "choices cfg \<noteq> []" by auto
  define s where "s = (ss_setup cfg w)\<lparr>stdOutput := stdOutput (ss_setup cfg w) @
      [Frame (cursorIdx (ss_setup cfg w)) (startIdx (ss_setup cfg w)) (endIdx (ss_setup cfg w))]\<rparr>"
  have start: "ss_session uni cfg w [] = Continue s"
    by (simp add: ss_session_def redraw_Continue inv_ss_setup s_def)
  have "selectedChoice (ss s) = choices cfg ! nat (defaultChoice cfg)"
    and "filteredChoices s \<noteq> []"
    using ne by (simp_all add: s_def ss_setup_default [OF assms(2,3)])
  with assms(4) ss_enter_Render [OF assms(1) ne start, THEN conjunct2, THEN conjunct2]
  show ?thesis by simp
qed

text \<open>
  Claim C10, as amended. A single-select session is waiting for a key, with the cursor
  on an enabled choice whose value is the empty string. When nothing is selected, or the
  selected choice has an empty value too, Select-toggle leaves the selection at the zero
  value, and a Confirm that follows on a prompt that is not optional is rejected. When
  the selected choice has a value that is not empty, Select-toggle makes the choice
  under the cursor the selection; the Confirm that follows returns it when its label is
  not empty, and is rejected on a prompt that is not optional when its label is empty
  (the choice is then the zero value itself). A default index that points at an enabled
  choice of empty value and a label that is not empty selects it, and Confirm as the
  first key returns it.
\<close>

theorem ss_toggle_empty_value:
  assumes "makeSpace (9 + pageSize (ss_init cfg)) t = (w, None)"
    and "ss_session uni cfg w events = Continue s" and "filteredChoices s \<noteq> []"
    and "\<not> Disabled (filteredChoices s ! nat (cursorIdx s))"
    and "Value (filteredChoices s ! nat (cursorIdx s)) = []"
  shows "(Value (selectedChoice (ss s)) = [] \<longrightarrow>
            selectedChoice (ss (flowState (ss_session uni cfg w (events @ [press Space]))))
              = Choice0 \<and>
            (\<not> optional cfg \<longrightarrow>
               snd (ss_Render uni cfg t (events @ [press Space, press Enter])) = Waiting \<and>
               valMessage (flowState (ss_session uni cfg w (events @ [press Space, press Enter])))
                 = ''No selection made (required)'')) \<and>
         (Value (selectedChoice (ss s)) \<noteq> [] \<longrightarrow>
            selectedChoice (ss (flowState (ss_session uni cfg w (events @ [press Space]))))
              = filteredChoices s ! nat (cursorIdx s) \<and>
            (Label (filteredChoices s ! nat (cursorIdx s)) \<noteq> [] \<longrightarrow>
               snd (ss_Render uni cfg t (events @ [press Space, press Enter]))
                 = Returns (Inr (filteredChoices s ! nat (cursorIdx s)))) \<and>
            (Label (filteredChoices s ! nat (cursorIdx s)) = [] \<and> \<not> optional cfg \<longrightarrow>
               snd (ss_Render uni cfg t (events @ [press Space, press Enter])) = Waiting \<and>
               valMessage (flowState (ss_session uni cfg w (events @ [press Space, press Enter])))
                 = ''No selection made (required)'')) \<and>
         (0 \<le> defaultChoice cfg \<and> defaultChoice cfg < int (length (choices cfg)) \<and>
          \<not> Disabled (choices cfg ! nat (defaultChoice cfg)) \<and>
          Value (choices cfg ! nat (defaultChoice cfg)) = [] \<and>
          Label (choices cfg ! nat (defaultChoice cfg)) \<noteq> [] \<longrightarrow>
            snd (ss_Render uni cfg t [press Enter])
              = Returns (Inr (choices cfg ! nat (defaultChoice cfg))))"
proof -
  let ?c = "filteredChoices s ! nat (cursorIdx s)"
  note sp = ss_space_step [OF assms(2,3,4)]
  from ss_reached [OF assms(2)] assms(3) have ne: "choices cfg \<noteq> []"
    by (auto simp: ss_frame_def)
  define s1 where "s1 = flowState (ss_session uni cfg w (events @ [press Space]))"
  have c1: "ss_session uni cfg w (events @ [press Space]) = Continue s1"
    by (simp add: s1_def sp)
  have f1: "filteredChoices s1 \<noteq> []"
    using assms(3) by (simp add: s1_def sp)
  have sel1: "selectedChoice (ss s1) = (if Value (selectedChoice (ss s)) = [] then Choice0 else ?c)"
    using assms(5) by (simp add: s1_def sp)
  note en = ss_enter_Render [OF assms(1) ne c1]
  have zero: "?c = Choice0 \<longleftrightarrow> Label ?c = []"
    using assms(4,5) by (cases ?c) (auto simp: Choice0_def)
  have rejected: "snd (ss_Render uni cfg t (events @ [press Space, press Enter])) = Waiting \<and>
      valMessage (flowState (ss_session uni cfg w (events @ [press Space, press Enter])))
        = ''No selection made (required)''"
    if "selectedChoice (ss s1) = Choice0" "\<not> optional cfg"
    using en [THEN conjunct1] that by simp
  have returned: "snd (ss_Render uni cfg t (events @ [press Space, press Enter]))
      = Returns (Inr (selectedChoice (ss s1)))"
    if "selectedChoice (ss s1) \<noteq> Choice0"
    using en [THEN conjunct2, THEN conjunct2] that f1 by simp
  have A: "Value (selectedChoice (ss s)) = [] \<longrightarrow>
            selectedChoice (ss s1) = Choice0 \<and>
            (\<not> optional cfg \<longrightarrow>
               snd (ss_Render uni cfg t (events @ [press Space, press Enter])) = Waiting \<and>
               valMessage (flowState (ss_session uni cfg w (events @ [press Space, press Enter])))
                 = ''No selection made (required)'')"
    using rejected by (simp add: sel1)
  have B: "Value (selectedChoice (ss s)) \<noteq> [] \<longrightarrow>
            selectedChoice (ss s1) = ?c \<and>
            (Label ?c \<noteq> [] \<longrightarrow>
               snd (ss_Render uni cfg t (events @ [press Space, press Enter]))
                 = Returns (Inr ?c)) \<and>
            (Label ?c = [] \<and> \<not> optional cfg \<longrightarrow>
               snd (ss_Render uni cfg t (events @ [press Space, press Enter])) = Waiting \<and>
               valMessage (flowState (ss_session uni cfg w (events @ [press Space, press Enter])))
                 = ''No selection made (required)'')"
  proof (intro impI conjI)
    assume v: "Value (selectedChoice (ss s)) \<noteq> []"
    then show s: "selectedChoice (ss s1) = ?c" by (simp add: sel1)
    {
      assume "Label ?c \<noteq> []"
      with zero s have "selectedChoice (ss s1) \<noteq> Choice0" by simp
      from returned [OF this] s
      show "snd (ss_Render uni cfg t (events @ [press Space, press Enter])) = Returns (Inr ?c)"
        by simp
    }
    assume l: "Label ?c = [] \<and> \<not> optional cfg"
    with zero s have "selectedChoice (ss s1) = Choice0" by simp
    from rejected [OF this] l
    show "snd (ss_Render uni cfg t (events @ [press Space, press Enter])) = Waiting"
      and "valMessage (flowState (ss_session uni cfg w (events @ [press Space, press Enter])))
                 = ''No selection made (required)''"
      by simp_all
  qed
  have C: "0 \<le> defaultChoice cfg \<and> defaultChoice cfg < int (length (choices cfg)) \<and>
          \<not> Disabled (choices cfg ! nat (defaultChoice cfg)) \<and>
          Value (choices cfg ! nat (defaultChoice cfg)) = [] \<and>
          Label (choices cfg ! nat (defaultChoice cfg)) \<noteq> [] \<longrightarrow>
            snd (ss_Render uni cfg t [press Enter])
              = Returns (Inr (choices cfg ! nat (defaultChoice cfg)))"
  proof
    assume d: "0 \<le> defaultChoice cfg \<and> defaultChoice cfg < int (length (choices cfg)) \<and>
          \<not> Disabled (choices cfg ! nat (defaultChoice cfg)) \<and>
          Value (choices cfg ! nat (defaultChoice cfg)) = [] \<and>
          Label (choices cfg ! nat (defaultChoice cfg)) \<noteq> []"
    then have "choices cfg ! nat (defaultChoice cfg) \<noteq> Choice0"
      by (auto simp: Choice0_def)
    with d show "snd (ss_Render uni cfg t [press Enter])
              = Returns (Inr (choices cfg ! nat (defaultChoice cfg)))"
      by (intro ss_default_confirmed [OF assms(1)]) simp_all
  qed
  from A B C show ?thesis unfolding s1_def by (intro conjI)
qed

text \<open>
  Claim C10 as stated fails in its consequence: a choice whose value is the empty string
  becomes the selection when another choice is selected at the time of the toggle, and
  Confirm then returns it.
\<close>

theorem ss_toggle_empty_value_counterexample:
  "snd (ss_Render id
       \<lparr>choices = [enabledChoice ''b'' ''Bee'', enabledChoice [] ''Blank''],
        optional = False, pageSizeCfg = 10, defaultChoice = - 1, selectedChoice = Choice0\<rparr>
       \<lparr>termWidth = 80, termHeight = 24, termErr = False\<rparr>
       [press Space, press Down, press Space, press Enter])
     = Returns (Inr (enabledChoice [] ''Blank''))"
  by code_simp

text \<open>The theorem in sessions over Bee and Blank, the choice of empty value: with
  Bee selected and the cursor on Blank, with Blank the default under the cursor, and
  with Bee selected and the cursor on a choice of empty value and empty label.\<close>

theorem ss_toggle_empty_value_witness:
  "makeSpace (9 + pageSize (ss_init
       \<lparr>choices = [enabledChoice ''b'' ''Bee'', enabledChoice [] ''Blank''],
        optional = False, pageSizeCfg = 10, defaultChoice = - 1, selectedChoice = Choice0\<rparr>))
     \<lparr>termWidth = 80, termHeight = 24, termErr = False\<rparr>
     = (replicate 11 NewLine @ [CursorUp 11], None) \<and>
   snd (ss_Render id
       \<lparr>choices = [enabledChoice ''b'' ''Bee'', enabledChoice [] ''Blank''],
        optional = False, pageSizeCfg = 10, defaultChoice = - 1, selectedChoice = Choice0\<rparr>
       \<lparr>termWidth = 80, termHeight = 24, termErr = False\<rparr>
       ([press Space, press Down] @ [press Space, press Enter]))
     = Returns (Inr (enabledChoice [] ''Blank'')) \<and>
   snd (ss_Render id
       \<lparr>choices = [enabledChoice [] ''Blank'', enabledChoice ''b'' ''Bee''],
        optional = False, pageSizeCfg = 10, defaultChoice = 0, selectedChoice = Choice0\<rparr>
       \<lparr>termWidth = 80, termHeight = 24, termErr = False\<rparr>
       ([] @ [press Space, press Enter])) = Waiting \<and>
   snd (ss_Render id
       \<lparr>choices = [enabledChoice [] ''Blank'', enabledChoice ''b'' ''Bee''],
        optional = False, pageSizeCfg = 10, defaultChoice = 0, selectedChoice = Choice0\<rparr>
       \<lparr>termWidth = 80, termHeight = 24, termErr = False\<rparr> [press Enter])
     = Returns (Inr (enabledChoice [] ''Blank'')) \<and>
   snd (ss_Render id
       \<lparr>choices = [enabledChoice ''b'' ''Bee'', enabledChoice [] []],
        optional = False, pageSizeCfg = 10, defaultChoice = - 1, selectedChoice = Choice0\<rparr>
       \<lparr>termWidth = 80, termHeight = 24, termErr = False\<rparr>
       ([press Space, press Down] @ [press Space, press Enter])) = Waiting"
proof -
  define c1 where "c1 =
       \<lparr>choices = [enabledChoice ''b'' ''Bee'', enabledChoice [] ''Blank''],
        optional = False, pageSizeCfg = 10, defaultChoice = - 1, selectedChoice = Choice0\<rparr>"
  define c2 where "c2 =
       \<lparr>choices = [enabledChoice [] ''Blank'', enabledChoice ''b'' ''Bee''],
        optional = False, pageSizeCfg = 10, defaultChoice = 0, selectedChoice = Choice0\<rparr>"
  define T where "T = \<lparr>termWidth = 80, termHeight = 24, termErr = False\<rparr>"
  define w where "w = replicate 11 NewLine @ [CursorUp 11]"
  define s1 where "s1 = flowState (ss_session id c1 w [press Space, press Down])"
  define s2 where "s2 = flowState (ss_session id c2 w [])"
  have a1: "makeSpace (9 + pageSize (ss_init c1)) T = (w, None)"
    unfolding c1_def T_def w_def by code_simp
  have a2: "ss_session id c1 w [press Space, press Down] = Continue s1"
    unfolding c1_def w_def s1_def by code_simp
  have a3: "filteredChoices s1 \<noteq> []"
    and a4: "\<not> Disabled (filteredChoices s1 ! nat (cursorIdx s1))"
    and a5: "Value (filteredChoices s1 ! nat (cursorIdx s1)) = []"
    and a6: "Value (selectedChoice (ss s1)) \<noteq> []"
    and a7: "Label (filteredChoices s1 ! nat (cursorIdx s1)) \<noteq> []"
    and a8: "filteredChoices s1 ! nat (cursorIdx s1) = enabledChoice [] ''Blank''"
    unfolding c1_def w_def s1_def by code_simp+
  have b1: "makeSpace (9 + pageSize (ss_init c2)) T = (w, None)"
    unfolding c2_def T_def w_def by code_simp
  have b2: "ss_session id c2 w [] = Continue s2"
    unfolding c2_def w_def s2_def by code_simp
  have b3: "filteredChoices s2 \<noteq> []"
    and b4: "\<not> Disabled (filteredChoices s2 ! nat (cursorIdx s2))"
    and b5: "Value (filteredChoices s2 ! nat (cursorIdx s2)) = []"
    and b6: "Value (selectedChoice (ss s2)) = []"
    and b7: "\<not> optional c2"
    and b8: "0 \<le> defaultChoice c2 \<and> defaultChoice c2 < int (length (choices c2)) \<and>
          \<not> Disabled (choices c2 ! nat (defaultChoice c2)) \<and>
          Value (choices c2 ! nat (defaultChoice c2)) = [] \<and>
          Label (choices c2 ! nat (defaultChoice c2)) \<noteq> []"
    and b9: "choices c2 ! nat (defaultChoice c2) = enabledChoice [] ''Blank''"
    unfolding c2_def w_def s2_def by code_simp+
  note t1 = ss_toggle_empty_value [OF a1 a2 a3 a4 a5]
  note t2 = ss_toggle_empty_value [OF b1 b2 b3 b4 b5]
  have r1: "snd (ss_Render id c1 T ([press Space, press Down] @ [press Space, press Enter]))
     = Returns (Inr (enabledChoice [] ''Blank''))"
    using t1 [THEN conjunct2, THEN conjunct1, THEN mp, OF a6, THEN conjunct2, THEN conjunct1,
        THEN mp, OF a7]
    by (simp only: a8)
  have r2: "snd (ss_Render id c2 T ([] @ [press Space, press Enter])) = Waiting"
    by (rule t2 [THEN conjunct1, THEN mp, OF b6, THEN conjunct2, THEN mp, OF b7,
        THEN conjunct1])
  have r3: "snd (ss_Render id c2 T [press Enter]) = Returns (Inr (enabledChoice [] ''Blank''))"
    using t2 [THEN conjunct2, THEN conjunct2, THEN mp, OF b8] by (simp only: b9)
  define c3 where "c3 =
       \<lparr>choices = [enabledChoice ''b'' ''Bee'', enabledChoice [] []],
        optional = False, pageSizeCfg = 10, defaultChoice = - 1, selectedChoice = Choice0\<rparr>"
  define s3 where "s3 = flowState (ss_session id c3 w [press Space, press Down])"
  have d1: "makeSpace (9 + pageSize (ss_init c3)) T = (w, None)"
    unfolding c3_def T_def w_def by code_simp
  have d2: "ss_session id c3 w [press Space, press Down] = Continue s3"
    unfolding c3_def w_def s3_def by code_simp
  have d3: "filteredChoices s3 \<noteq> []"
    and d4: "\<not> Disabled (filteredChoices s3 ! nat (cursorIdx s3))"
    and d5: "Value (filteredChoices s3 ! nat (cursorIdx s3)) = []"
    and d6: "Value (selectedChoice (ss s3)) \<noteq> []"
    and d7: "Label (filteredChoices s3 ! nat (cursorIdx s3)) = [] \<and> \<not> optional c3"
    unfolding c3_def w_def s3_def by code_simp+
  note t3 = ss_toggle_empty_value [OF d1 d2 d3 d4 d5]
  have r4: "snd (ss_Render id c3 T ([press Space, press Down] @ [press Space, press Enter]))
      = Waiting"
    by (rule t3 [THEN conjunct2, THEN conjunct1, THEN mp, OF d6, THEN conjunct2,
        THEN conjunct2, THEN mp, OF d7, THEN conjunct1])
  from a1 r1 r2 r3 r4 show ?thesis
    unfolding c1_def [symmetric] c2_def [symmetric] c3_def [symmetric] T_def [symmetric]
      w_def [symmetric]
    by (intro conjI) (simp_all only: simp_thms)
qed

section \<open>Multi select: toggling\<close>

lemma isSelected_iff: "isSelected sel c \<longleftrightarrow> Value c \<in> Value ` set sel"
proof
  assume "isSelected sel c"
  then obtain x where "x \<in> set sel" "Value x = Value c"
    by (auto simp: isSelected_def list_ex_iff)
  then show "Value c \<in> Value ` set sel" by (metis imageI)
next
  assume "Value c \<in> Value ` set sel"
  then obtain x where "x \<in> set sel" "Value c = Value x" by (rule imageE)
  then show "isSelected sel c" by (auto simp: isSelected_def list_ex_iff)
qed

lemma removeFirst_None: "removeFirst v xs = None \<longleftrightarrow> v \<notin> Value ` set xs"
  by (induction xs) auto

lemma removeFirst_append_new:
  "v \<notin> Value ` set xs \<Longrightarrow> Value c = v \<Longrightarrow> removeFirst v (xs @ [c]) = Some xs"
  by (induction xs) auto

lemma removeFirst_Some:
  "removeFirst v xs = Some ys \<Longrightarrow>
     length xs = Suc (length ys) \<and> Value ` set xs = insert v (Value ` set ys) \<and>
     (distinct (map Value xs) \<longrightarrow> v \<notin> Value ` set ys)"
proof (induction xs arbitrary: ys)
  case Nil
  then show ?case by simp
next
  case (Cons x xs)
  show ?case
  proof (cases "Value x = v")
    case True
    with Cons.prems show ?thesis by auto
  next
    case False
    with Cons.prems obtain zs where zs: "removeFirst v xs = Some zs" and ys: "ys = x # zs"
      by auto
    from Cons.IH [OF zs] ys False show ?thesis by auto
  qed
qed

lemma length_toggleSelection:
  "length (selectedChoices (toggleSelection c m)) \<le> Suc (length (selectedChoices m))"
  by (auto simp: toggleSelection_def dest: removeFirst_Some split: option.splits)

text \<open>What the Space handler does to the struct: nothing when the limit rejects the
  choice, \<^verbatim>\<open>toggleSelection\<close> otherwise.\<close>

lemma ms_space_step:
  assumes "ms_session uni cfg w events = Continue s" and "filteredChoices s \<noteq> []"
    and "\<not> Disabled (filteredChoices s ! nat (cursorIdx s))"
  shows "\<exists>s1. ms_session uni cfg w (events @ [press Space]) = Continue s1 \<and>
           filteredChoices s1 = filteredChoices s \<and> cursorIdx s1 = cursorIdx s \<and>
           maxAllowed s1 = maxAllowed s \<and>
           ms s1 = (if \<not> isSelected (selectedChoices (ms s)) (filteredChoices s ! nat (cursorIdx s)) \<and>
                       int (length (selectedChoices (ms s))) \<ge> maxAllowed s
                    then ms s
                    else toggleSelection (filteredChoices s ! nat (cursorIdx s)) (ms s))"
proof -
  from ms_reached [OF assms(1)] have inv: "sessionInv s" by simp
  have "ms_session uni cfg w (events @ [press Space])
        = ms_callback uni \<lparr>Code = Space, Runes = []\<rparr> s"
    by (simp only: ms_session_append [OF assms(1)] listen_single)
  then have "ms_session uni cfg w (events @ [press Space]) = ms_space s"
    by (simp add: ms_callback_def)
  with inv assms(2,3) show ?thesis
    by (simp add: ms_space_def at_inv redraw_Continue sessionInv_upd sessionInv_ms_upd Let_def)
qed

text \<open>The struct after the Space handler, as a function of the struct before.\<close>

lemma toggle_not_selected:
  assumes "\<not> isSelected (selectedChoices m) c"
  shows "selectedChoices (toggleSelection c m) = selectedChoices m \<or>
         selectedChoices (toggleSelection c m) = selectedChoices m @ [c]"
    and "selectedChoices (toggleSelection c (m\<lparr>selectedChoices := selectedChoices m @ [c]\<rparr>))
           = selectedChoices m"
  using assms
  by (simp_all add: toggleSelection_def isSelected_iff removeFirst_None [THEN iffD2]
      removeFirst_append_new)

lemma toggle_twice_new:
  assumes "\<not> isSelected (selectedChoices m) c"
    and m1: "m1 = (if \<not> isSelected (selectedChoices m) c \<and> int (length (selectedChoices m)) \<ge> a
                  then m else toggleSelection c m)"
    and m2: "m2 = (if \<not> isSelected (selectedChoices m1) c \<and> int (length (selectedChoices m1)) \<ge> a
                  then m1 else toggleSelection c m1)"
  shows "selectedChoices m2 = selectedChoices m"
proof (cases "selectedChoices m1 = selectedChoices m")
  case True
  with assms(1) m1 m2 have "selectedChoices m2 = selectedChoices (toggleSelection c m1) \<or>
      selectedChoices m2 = selectedChoices m"
    by auto
  moreover have "m1 = m \<or> m1 = toggleSelection c m" using m1 by auto
  then have "m1 = m"
  proof
    assume t: "m1 = toggleSelection c m"
    with True assms(1) show "m1 = m"
      by (auto simp: toggleSelection_def isSelected_iff removeFirst_None [THEN iffD2]
          split: if_splits)
  qed simp
  moreover from this True m1 assms(1)
  have "int (length (selectedChoices m)) \<ge> a \<or> toggleSelection c m = m"
    by (auto split: if_splits)
  ultimately show ?thesis using m2 assms(1) by auto
next
  case False
  with m1 have t: "m1 = toggleSelection c m" by (auto split: if_splits)
  with False toggle_not_selected(1) [OF assms(1)]
  have app: "selectedChoices m1 = selectedChoices m @ [c]" by auto
  from t assms(1) have "m1 = m\<lparr>selectedChoices := selectedChoices m @ [c]\<rparr>"
    using app
    by (auto simp: toggleSelection_def isSelected_iff removeFirst_None [THEN iffD2]
        split: if_splits)
  moreover from app have "isSelected (selectedChoices m1) c"
    by (simp add: isSelected_iff)
  ultimately show ?thesis
    using m2 toggle_not_selected(2) [OF assms(1)] by simp
qed

lemma removeFirst_filter:
  "removeFirst v xs = Some ys \<Longrightarrow>
     filter (\<lambda>x. Value x \<noteq> v) ys = filter (\<lambda>x. Value x \<noteq> v) xs \<and>
     length (filter (\<lambda>x. Value x = v) xs) = Suc (length (filter (\<lambda>x. Value x = v) ys))"
proof (induction xs arbitrary: ys)
  case Nil
  then show ?case by simp
next
  case (Cons x xs)
  show ?case
  proof (cases "Value x = v")
    case True
    with Cons.prems show ?thesis by auto
  next
    case False
    with Cons.prems obtain zs where zs: "removeFirst v xs = Some zs" and ys: "ys = x # zs"
      by auto
    from Cons.IH [OF zs] ys False show ?thesis by auto
  qed
qed

lemma no_value_iff:
  "length (filter (\<lambda>x. Value x = v) xs) = 0 \<longleftrightarrow> v \<notin> Value ` set xs"
  by (induction xs) auto

text \<open>Two toggles of a selected choice: the struct after each Space, as the handler
  computes it with the limit \<open>a\<close>.\<close>

lemma toggle_twice_selected:
  assumes sel: "isSelected (selectedChoices m) c"
    and lim: "0 \<le> maxSelectedCount m \<longrightarrow> maxSelectedCount m = 0 \<or> maxSelectedCount m = a"
    and m1: "m1 = (if \<not> isSelected (selectedChoices m) c \<and> int (length (selectedChoices m)) \<ge> a
                  then m else toggleSelection c m)"
    and m2: "m2 = (if \<not> isSelected (selectedChoices m1) c \<and> int (length (selectedChoices m1)) \<ge> a
                  then m1 else toggleSelection c m1)"
  shows "if length (filter (\<lambda>x. Value x = Value c) (selectedChoices m)) = 1 \<and>
            int (length (selectedChoices m)) \<le> a \<and> 0 \<le> maxSelectedCount m
         then selectedChoices m2 = filter (\<lambda>x. Value x \<noteq> Value c) (selectedChoices m) @ [c]
         else length (selectedChoices m2) < length (selectedChoices m)"
proof -
  from sel obtain rest where r: "removeFirst (Value c) (selectedChoices m) = Some rest"
    by (cases "removeFirst (Value c) (selectedChoices m)")
      (simp_all add: removeFirst_None isSelected_iff)
  from removeFirst_Some [OF r] removeFirst_filter [OF r]
  have len: "length (selectedChoices m) = Suc (length rest)"
    and flt: "filter (\<lambda>x. Value x \<noteq> Value c) rest
                = filter (\<lambda>x. Value x \<noteq> Value c) (selectedChoices m)"
    and cnt: "length (filter (\<lambda>x. Value x = Value c) (selectedChoices m))
                = Suc (length (filter (\<lambda>x. Value x = Value c) rest))"
    by simp_all
  from m1 sel r have m1': "m1 = m\<lparr>selectedChoices := rest\<rparr>"
    by (simp add: toggleSelection_def)
  show ?thesis
  proof (cases "Value c \<in> Value ` set rest")
    case True
    then obtain rest2 where r2: "removeFirst (Value c) rest = Some rest2"
      by (cases "removeFirst (Value c) rest") (simp_all add: removeFirst_None)
    from True have "length (filter (\<lambda>x. Value x = Value c) rest) \<noteq> 0"
      using no_value_iff [of "Value c" rest] by simp
    with cnt have many: "length (filter (\<lambda>x. Value x = Value c) (selectedChoices m)) \<noteq> 1"
      by simp
    from True m2 m1' r2 have "selectedChoices m2 = rest2"
      by (simp add: toggleSelection_def isSelected_iff)
    with removeFirst_Some [OF r2] len many show ?thesis by simp
  next
    case False
    then have none: "removeFirst (Value c) rest = None"
      by (simp add: removeFirst_None)
    from False have "length (filter (\<lambda>x. Value x = Value c) rest) = 0"
      using no_value_iff [of "Value c" rest] by simp
    with cnt have once: "length (filter (\<lambda>x. Value x = Value c) (selectedChoices m)) = 1"
      by simp
    from False have "filter (\<lambda>x. Value x \<noteq> Value c) rest = rest"
      unfolding filter_id_conv by (metis imageI)
    with flt have rest: "filter (\<lambda>x. Value x \<noteq> Value c) (selectedChoices m) = rest"
      by simp
    show ?thesis
    proof (cases "int (length (selectedChoices m)) \<le> a \<and> 0 \<le> maxSelectedCount m")
      case True
      with len have lt: "int (length rest) < a" by simp
      from True lim have "maxSelectedCount m = 0 \<or> maxSelectedCount m = a" by simp
      with m2 m1' False lt none have "selectedChoices m2 = rest @ [c]"
        by (auto simp: toggleSelection_def isSelected_iff)
      with True once rest show ?thesis by simp
    next
      case over: False
      have "selectedChoices m2 = rest"
      proof (cases "int (length rest) \<ge> a")
        case True
        with m2 m1' False show ?thesis by (simp add: isSelected_iff)
      next
        case small: False
        with over len have neg: "maxSelectedCount m < 0" by auto
        with m2 m1' none show ?thesis
          by (auto simp: toggleSelection_def)
      qed
      with over len show ?thesis by auto
    qed
  qed
qed
lemma moved_to_end:
  assumes "length (filter (\<lambda>x. Value x = Value c) xs) = 1"
  shows "Value ` set (filter (\<lambda>x. Value x \<noteq> Value c) xs @ [c]) = Value ` set xs"
    and "length (filter (\<lambda>x. Value x \<noteq> Value c) xs @ [c]) = length xs"
proof -
  from assms have "filter (\<lambda>x. Value x = Value c) xs \<noteq> []" by auto
  then obtain y where y: "y \<in> set xs" "Value y = Value c"
    by (auto simp: filter_empty_conv)
  show "Value ` set (filter (\<lambda>x. Value x \<noteq> Value c) xs @ [c]) = Value ` set xs"
  proof
    show "Value ` set (filter (\<lambda>x. Value x \<noteq> Value c) xs @ [c]) \<subseteq> Value ` set xs"
      using y by (auto intro: rev_image_eqI)
    show "Value ` set xs \<subseteq> Value ` set (filter (\<lambda>x. Value x \<noteq> Value c) xs @ [c])"
    proof
      fix v assume "v \<in> Value ` set xs"
      then obtain x where x: "x \<in> set xs" "v = Value x" by auto
      show "v \<in> Value ` set (filter (\<lambda>x. Value x \<noteq> Value c) xs @ [c])"
      proof (cases "Value x = Value c")
        case True
        with x show ?thesis by simp
      next
        case False
        with x have "x \<in> set (filter (\<lambda>x. Value x \<noteq> Value c) xs @ [c])" by simp
        with x(2) show ?thesis by (rule_tac image_eqI)
      qed
    qed
  qed
  from sum_length_filter_compl [of "\<lambda>x. Value x = Value c" xs] assms
  show "length (filter (\<lambda>x. Value x \<noteq> Value c) xs @ [c]) = length xs"
    by simp
qed

section \<open>Toggling twice\<close>

lemma ss_toggle_twice:
  assumes "ss_session uni cfg w events = Continue s" and "filteredChoices s \<noteq> []"
    and "\<not> Disabled (filteredChoices s ! nat (cursorIdx s))"
  shows "selectedChoice (ss (flowState (ss_session uni cfg w (events @ [press Space, press Space]))))
     = (let c = filteredChoices s ! nat (cursorIdx s);
            c1 = (if Value (selectedChoice (ss s)) = Value c then Choice0 else c)
        in if Value c1 = Value c then Choice0 else c)"
proof -
  define s1 where "s1 = flowState (ss_session uni cfg w (events @ [press Space]))"
  note sp = ss_space_step [OF assms]
  have c1: "ss_session uni cfg w (events @ [press Space]) = Continue s1"
    by (simp add: s1_def sp)
  have f1: "filteredChoices s1 = filteredChoices s" "cursorIdx s1 = cursorIdx s"
    and sel1: "selectedChoice (ss s1) =
      (if Value (selectedChoice (ss s)) = Value (filteredChoices s ! nat (cursorIdx s))
       then Choice0 else filteredChoices s ! nat (cursorIdx s))"
    by (simp_all add: s1_def sp)
  from assms(2,3) f1 have h: "filteredChoices s1 \<noteq> []"
    "\<not> Disabled (filteredChoices s1 ! nat (cursorIdx s1))"
    by simp_all
  have "selectedChoice (ss (flowState (ss_session uni cfg w ((events @ [press Space]) @ [press Space]))))
      = (if Value (selectedChoice (ss s1)) = Value (filteredChoices s1 ! nat (cursorIdx s1))
         then Choice0 else filteredChoices s1 ! nat (cursorIdx s1))"
    by (subst ss_space_step [OF c1 h]) simp
  then show ?thesis
    by (simp add: f1 sel1 Let_def)
qed

lemma ms_toggle_twice:
  assumes "ms_session uni cfg w events = Continue s" and "filteredChoices s \<noteq> []"
    and "\<not> Disabled (filteredChoices s ! nat (cursorIdx s))"
  shows "\<exists>m1. m1 = (if \<not> isSelected (selectedChoices (ms s)) (filteredChoices s ! nat (cursorIdx s)) \<and>
                     int (length (selectedChoices (ms s))) \<ge> maxAllowed s
                  then ms s
                  else toggleSelection (filteredChoices s ! nat (cursorIdx s)) (ms s)) \<and>
     ms (flowState (ms_session uni cfg w (events @ [press Space, press Space])))
       = (if \<not> isSelected (selectedChoices m1) (filteredChoices s ! nat (cursorIdx s)) \<and>
                     int (length (selectedChoices m1)) \<ge> maxAllowed s
          then m1
          else toggleSelection (filteredChoices s ! nat (cursorIdx s)) m1)"
proof -
  from ms_space_step [OF assms] obtain s1 where
    c1: "ms_session uni cfg w (events @ [press Space]) = Continue s1"
    and f1: "filteredChoices s1 = filteredChoices s" "cursorIdx s1 = cursorIdx s"
      "maxAllowed s1 = maxAllowed s"
    and m1: "ms s1 =
      (if \<not> isSelected (selectedChoices (ms s)) (filteredChoices s ! nat (cursorIdx s)) \<and>
          int (length (selectedChoices (ms s))) \<ge> maxAllowed s
       then ms s else toggleSelection (filteredChoices s ! nat (cursorIdx s)) (ms s))"
    by blast
  from assms(2,3) f1 have h: "filteredChoices s1 \<noteq> []"
    "\<not> Disabled (filteredChoices s1 ! nat (cursorIdx s1))"
    by simp_all
  from ms_space_step [OF c1 h] obtain s2 where
    c2: "ms_session uni cfg w ((events @ [press Space]) @ [press Space]) = Continue s2"
    and m2: "ms s2 =
      (if \<not> isSelected (selectedChoices (ms s1)) (filteredChoices s1 ! nat (cursorIdx s1)) \<and>
          int (length (selectedChoices (ms s1))) \<ge> maxAllowed s1
       then ms s1 else toggleSelection (filteredChoices s1 ! nat (cursorIdx s1)) (ms s1))"
    by blast
  from c2 have "flowState (ms_session uni cfg w (events @ [press Space, press Space])) = s2"
    by simp
  with m2 f1 m1 show ?thesis by simp
qed

lemma ms_limit:
  assumes "ms_session uni cfg w events = Continue s"
  shows "maxSelectedCount (ms s) = maxSelectedCount cfg"
    and "0 \<le> maxSelectedCount (ms s) \<longrightarrow>
           maxSelectedCount (ms s) = 0 \<or> maxSelectedCount (ms s) = maxAllowed s"
  using ms_reached [OF assms]
  by (auto simp: ms_frame_def ms_init_def Let_def max_def)

text \<open>
  Claim C2, as amended. Two Select-toggles in a row on a choice under the cursor that
  is not disabled. Single select: afterwards the selection is that choice when the
  selected value was its value and is not empty, and nothing otherwise; so the selection
  is what it was before exactly when nothing was selected, or when that choice was the
  selection and its value is not empty. Multi select: when the choice was not selected,
  the selection is the list it was before. When it was selected: if its value is
  selected once, the number of selected choices is at most \<open>maxAllowed\<close> and
  \<^verbatim>\<open>maxSelectedCount\<close> is not negative, the selection is the list it was before with the
  choice moved to the end, which has the same values and as many choices; in every other
  case the selection has fewer choices than before.
\<close>

theorem toggle_twice:
  assumes "ss_session uni cfg w events = Continue s" and "filteredChoices s \<noteq> []"
    and "\<not> Disabled (filteredChoices s ! nat (cursorIdx s))"
    and "ms_session uni cfg' w' events' = Continue s'" and "filteredChoices s' \<noteq> []"
    and "\<not> Disabled (filteredChoices s' ! nat (cursorIdx s'))"
  shows "selectedChoice (ss (flowState
             (ss_session uni cfg w (events @ [press Space, press Space]))))
           = (if Value (selectedChoice (ss s)) = Value (filteredChoices s ! nat (cursorIdx s)) \<and>
                 Value (filteredChoices s ! nat (cursorIdx s)) \<noteq> []
              then filteredChoices s ! nat (cursorIdx s) else Choice0) \<and>
         (selectedChoice (ss (flowState
             (ss_session uni cfg w (events @ [press Space, press Space]))))
           = selectedChoice (ss s)
          \<longleftrightarrow> selectedChoice (ss s) = Choice0 \<or>
              (selectedChoice (ss s) = filteredChoices s ! nat (cursorIdx s) \<and>
               Value (selectedChoice (ss s)) \<noteq> [])) \<and>
         (\<not> isSelected (selectedChoices (ms s')) (filteredChoices s' ! nat (cursorIdx s')) \<longrightarrow>
            selectedChoices (ms (flowState
                (ms_session uni cfg' w' (events' @ [press Space, press Space]))))
              = selectedChoices (ms s')) \<and>
         (isSelected (selectedChoices (ms s')) (filteredChoices s' ! nat (cursorIdx s')) \<longrightarrow>
            (if length (filter (\<lambda>x. Value x = Value (filteredChoices s' ! nat (cursorIdx s')))
                   (selectedChoices (ms s'))) = 1 \<and>
                int (length (selectedChoices (ms s'))) \<le> maxAllowed s' \<and>
                0 \<le> maxSelectedCount cfg'
             then selectedChoices (ms (flowState
                      (ms_session uni cfg' w' (events' @ [press Space, press Space]))))
                    = filter (\<lambda>x. Value x \<noteq> Value (filteredChoices s' ! nat (cursorIdx s')))
                        (selectedChoices (ms s')) @ [filteredChoices s' ! nat (cursorIdx s')] \<and>
                  Value ` set (selectedChoices (ms (flowState
                      (ms_session uni cfg' w' (events' @ [press Space, press Space])))))
                    = Value ` set (selectedChoices (ms s')) \<and>
                  length (selectedChoices (ms (flowState
                      (ms_session uni cfg' w' (events' @ [press Space, press Space])))))
                    = length (selectedChoices (ms s'))
             else length (selectedChoices (ms (flowState
                      (ms_session uni cfg' w' (events' @ [press Space, press Space])))))
                    < length (selectedChoices (ms s'))))"
proof -
  let ?c = "filteredChoices s ! nat (cursorIdx s)"
  let ?x = "selectedChoice (ss s)"
  let ?x2 = "selectedChoice (ss (flowState
             (ss_session uni cfg w (events @ [press Space, press Space]))))"
  let ?c' = "filteredChoices s' ! nat (cursorIdx s')"
  let ?sel = "selectedChoices (ms s')"
  let ?sel2 = "selectedChoices (ms (flowState
                (ms_session uni cfg' w' (events' @ [press Space, press Space]))))"
  have S1: "?x2 = (if Value ?x = Value ?c \<and> Value ?c \<noteq> [] then ?c else Choice0)"
    by (simp add: ss_toggle_twice [OF assms(1-3)] Let_def Choice0_def)
  have S2: "?x2 = ?x \<longleftrightarrow> ?x = Choice0 \<or> (?x = ?c \<and> Value ?x \<noteq> [])"
    unfolding S1 by (auto simp: Choice0_def)
  from ms_toggle_twice [OF assms(4-6)] obtain m1 where
    m1: "m1 = (if \<not> isSelected ?sel ?c' \<and> int (length ?sel) \<ge> maxAllowed s'
               then ms s' else toggleSelection ?c' (ms s'))"
    and m2: "ms (flowState (ms_session uni cfg' w' (events' @ [press Space, press Space])))
       = (if \<not> isSelected (selectedChoices m1) ?c' \<and>
              int (length (selectedChoices m1)) \<ge> maxAllowed s'
          then m1 else toggleSelection ?c' m1)"
    by blast
  have M1: "\<not> isSelected ?sel ?c' \<longrightarrow> ?sel2 = ?sel"
  proof
    assume "\<not> isSelected ?sel ?c'"
    from toggle_twice_new [OF this m1 m2] show "?sel2 = ?sel" .
  qed
  have M2: "isSelected ?sel ?c' \<longrightarrow>
      (if length (filter (\<lambda>x. Value x = Value ?c') ?sel) = 1 \<and>
          int (length ?sel) \<le> maxAllowed s' \<and> 0 \<le> maxSelectedCount cfg'
       then ?sel2 = filter (\<lambda>x. Value x \<noteq> Value ?c') ?sel @ [?c'] \<and>
            Value ` set ?sel2 = Value ` set ?sel \<and> length ?sel2 = length ?sel
       else length ?sel2 < length ?sel)"
  proof
    assume sel: "isSelected ?sel ?c'"
    note t = toggle_twice_selected [OF sel ms_limit(2) [OF assms(4)] m1 m2,
        unfolded ms_limit(1) [OF assms(4)]]
    show "if length (filter (\<lambda>x. Value x = Value ?c') ?sel) = 1 \<and>
          int (length ?sel) \<le> maxAllowed s' \<and> 0 \<le> maxSelectedCount cfg'
       then ?sel2 = filter (\<lambda>x. Value x \<noteq> Value ?c') ?sel @ [?c'] \<and>
            Value ` set ?sel2 = Value ` set ?sel \<and> length ?sel2 = length ?sel
       else length ?sel2 < length ?sel"
    proof (cases "length (filter (\<lambda>x. Value x = Value ?c') ?sel) = 1 \<and>
          int (length ?sel) \<le> maxAllowed s' \<and> 0 \<le> maxSelectedCount cfg'")
      case True
      from t [unfolded if_P [OF True]]
      have e: "?sel2 = filter (\<lambda>x. Value x \<noteq> Value ?c') ?sel @ [?c']" .
      from True have once: "length (filter (\<lambda>x. Value x = Value ?c') ?sel) = 1" by simp
      have v: "Value ` set ?sel2 = Value ` set ?sel"
        unfolding e by (rule moved_to_end(1) [OF once])
      have l: "length ?sel2 = length ?sel"
        unfolding e by (rule moved_to_end(2) [OF once])
      show ?thesis unfolding if_P [OF True] by (intro conjI e v l)
    next
      case False
      from t [unfolded if_not_P [OF False]]
      show ?thesis unfolding if_not_P [OF False] .
    qed
  qed
  from S1 S2 M1 M2 show ?thesis by (intro conjI)
qed

text \<open>
  Claim C2 as stated fails in both prompts. Single select: with Apple selected and the
  cursor on Banana, two toggles leave nothing selected. Multi select: with Apple and
  Banana selected and the cursor on Apple, two toggles leave Banana before Apple; with
  Apple selected twice by the defaults, they leave nothing selected; with Apple and
  Banana selected by the defaults and a limit of one choice, they leave Banana alone.
\<close>

theorem toggle_twice_counterexample:
  "selectedChoice (ss (flowState (ss_session id
       \<lparr>choices = [enabledChoice ''a'' ''Apple'', enabledChoice ''b'' ''Banana''],
        optional = False, pageSizeCfg = 10, defaultChoice = - 1, selectedChoice = Choice0\<rparr>
       [] [press Space, press Down])))
     = enabledChoice ''a'' ''Apple'' \<and>
   selectedChoice (ss (flowState (ss_session id
       \<lparr>choices = [enabledChoice ''a'' ''Apple'', enabledChoice ''b'' ''Banana''],
        optional = False, pageSizeCfg = 10, defaultChoice = - 1, selectedChoice = Choice0\<rparr>
       [] ([press Space, press Down] @ [press Space, press Space]))))
     = Choice0 \<and>
   selectedChoices (ms (flowState (ms_session id
       \<lparr>choices = [enabledChoice ''a'' ''Apple'', enabledChoice ''b'' ''Banana''],
        optional = False, pageSizeCfg = 7, defaultChoices = [], minSelectedCount = 0,
        maxSelectedCount = 0, selectedChoices = []\<rparr>
       [] [press Space, press Down, press Space, press Up])))
     = [enabledChoice ''a'' ''Apple'', enabledChoice ''b'' ''Banana''] \<and>
   selectedChoices (ms (flowState (ms_session id
       \<lparr>choices = [enabledChoice ''a'' ''Apple'', enabledChoice ''b'' ''Banana''],
        optional = False, pageSizeCfg = 7, defaultChoices = [], minSelectedCount = 0,
        maxSelectedCount = 0, selectedChoices = []\<rparr>
       [] ([press Space, press Down, press Space, press Up] @ [press Space, press Space]))))
     = [enabledChoice ''b'' ''Banana'', enabledChoice ''a'' ''Apple''] \<and>
   selectedChoices (ms (flowState (ms_session id
       \<lparr>choices = [enabledChoice ''a'' ''Apple'', enabledChoice ''b'' ''Banana''],
        optional = False, pageSizeCfg = 7, defaultChoices = [0, 0], minSelectedCount = 0,
        maxSelectedCount = 0, selectedChoices = []\<rparr>
       [] [])))
     = [enabledChoice ''a'' ''Apple'', enabledChoice ''a'' ''Apple''] \<and>
   selectedChoices (ms (flowState (ms_session id
       \<lparr>choices = [enabledChoice ''a'' ''Apple'', enabledChoice ''b'' ''Banana''],
        optional = False, pageSizeCfg = 7, defaultChoices = [0, 0], minSelectedCount = 0,
        maxSelectedCount = 0, selectedChoices = []\<rparr>
       [] ([] @ [press Space, press Space]))))
     = [] \<and>
   selectedChoices (ms (flowState (ms_session id
       \<lparr>choices = [enabledChoice ''a'' ''Apple'', enabledChoice ''b'' ''Banana''],
        optional = False, pageSizeCfg = 7, defaultChoices = [0, 1], minSelectedCount = 0,
        maxSelectedCount = 1, selectedChoices = []\<rparr>
       [] [])))
     = [enabledChoice ''a'' ''Apple'', enabledChoice ''b'' ''Banana''] \<and>
   selectedChoices (ms (flowState (ms_session id
       \<lparr>choices = [enabledChoice ''a'' ''Apple'', enabledChoice ''b'' ''Banana''],
        optional = False, pageSizeCfg = 7, defaultChoices = [0, 1], minSelectedCount = 0,
        maxSelectedCount = 1, selectedChoices = []\<rparr>
       [] ([] @ [press Space, press Space]))))
     = [enabledChoice ''b'' ''Banana'']"
  by code_simp

text \<open>The theorem in sessions over Apple and Banana: single select with Apple
  selected and under the cursor; multi select with both selected and the cursor on
  Apple, and with nothing selected.\<close>

theorem toggle_twice_witness:
  "filteredChoices (flowState (ss_session id
       \<lparr>choices = [enabledChoice ''a'' ''Apple'', enabledChoice ''b'' ''Banana''],
        optional = False, pageSizeCfg = 10, defaultChoice = - 1, selectedChoice = Choice0\<rparr>
       [] [press Space])) \<noteq> [] \<and>
   selectedChoice (ss (flowState (ss_session id
       \<lparr>choices = [enabledChoice ''a'' ''Apple'', enabledChoice ''b'' ''Banana''],
        optional = False, pageSizeCfg = 10, defaultChoice = - 1, selectedChoice = Choice0\<rparr>
       [] ([press Space] @ [press Space, press Space]))))
     = enabledChoice ''a'' ''Apple'' \<and>
   selectedChoices (ms (flowState (ms_session id
       \<lparr>choices = [enabledChoice ''a'' ''Apple'', enabledChoice ''b'' ''Banana''],
        optional = False, pageSizeCfg = 7, defaultChoices = [], minSelectedCount = 0,
        maxSelectedCount = 0, selectedChoices = []\<rparr>
       [] ([press Space, press Down, press Space, press Up] @ [press Space, press Space]))))
     = filter (\<lambda>x. Value x \<noteq> Value (enabledChoice ''a'' ''Apple''))
         [enabledChoice ''a'' ''Apple'', enabledChoice ''b'' ''Banana'']
       @ [enabledChoice ''a'' ''Apple''] \<and>
   selectedChoices (ms (flowState (ms_session id
       \<lparr>choices = [enabledChoice ''a'' ''Apple'', enabledChoice ''b'' ''Banana''],
        optional = False, pageSizeCfg = 7, defaultChoices = [], minSelectedCount = 0,
        maxSelectedCount = 0, selectedChoices = []\<rparr>
       [] ([] @ [press Space, press Space]))))
     = []"
proof -
  define c1 where "c1 =
       \<lparr>choices = [enabledChoice ''a'' ''Apple'', enabledChoice ''b'' ''Banana''],
        optional = False, pageSizeCfg = 10, defaultChoice = - 1, selectedChoice = Choice0\<rparr>"
  define c2 where "c2 =
       \<lparr>choices = [enabledChoice ''a'' ''Apple'', enabledChoice ''b'' ''Banana''],
        optional = False, pageSizeCfg = 7, defaultChoices = [], minSelectedCount = 0,
        maxSelectedCount = 0, selectedChoices = []\<rparr>"
  define s1 where "s1 = flowState (ss_session id c1 [] [press Space])"
  define s2 where
    "s2 = flowState (ms_session id c2 [] [press Space, press Down, press Space, press Up])"
  have h1: "ss_session id c1 [] [press Space] = Continue s1"
    unfolding c1_def s1_def by code_simp
  have h2: "filteredChoices s1 \<noteq> []"
    and h3: "\<not> Disabled (filteredChoices s1 ! nat (cursorIdx s1))"
    and h7: "selectedChoice (ss s1) = Choice0 \<or>
          (selectedChoice (ss s1) = filteredChoices s1 ! nat (cursorIdx s1) \<and>
           Value (selectedChoice (ss s1)) \<noteq> [])"
    and h9: "selectedChoice (ss s1) = enabledChoice ''a'' ''Apple''"
    unfolding c1_def s1_def by code_simp+
  have h4: "ms_session id c2 [] [press Space, press Down, press Space, press Up] = Continue s2"
    unfolding c2_def s2_def by code_simp
  have h5: "filteredChoices s2 \<noteq> []"
    and h6: "\<not> Disabled (filteredChoices s2 ! nat (cursorIdx s2))"
    and h8: "isSelected (selectedChoices (ms s2)) (filteredChoices s2 ! nat (cursorIdx s2))"
    and h10: "length (filter (\<lambda>x. Value x = Value (filteredChoices s2 ! nat (cursorIdx s2)))
                   (selectedChoices (ms s2))) = 1 \<and>
                int (length (selectedChoices (ms s2))) \<le> maxAllowed s2 \<and>
                0 \<le> maxSelectedCount c2"
    and h11: "filteredChoices s2 ! nat (cursorIdx s2) = enabledChoice ''a'' ''Apple''"
    and h12: "selectedChoices (ms s2) = [enabledChoice ''a'' ''Apple'', enabledChoice ''b'' ''Banana'']"
    unfolding c2_def s2_def by code_simp+
  note t = toggle_twice [OF h1 h2 h3 h4 h5 h6]
  have r1: "selectedChoice (ss (flowState (ss_session id c1 []
        ([press Space] @ [press Space, press Space])))) = enabledChoice ''a'' ''Apple''"
    using t [THEN conjunct2, THEN conjunct1, THEN iffD2, OF h7] by (simp only: h9)
  have r2: "selectedChoices (ms (flowState (ms_session id c2 []
        ([press Space, press Down, press Space, press Up] @ [press Space, press Space]))))
     = filter (\<lambda>x. Value x \<noteq> Value (enabledChoice ''a'' ''Apple''))
         [enabledChoice ''a'' ''Apple'', enabledChoice ''b'' ''Banana'']
       @ [enabledChoice ''a'' ''Apple'']"
    using t [THEN conjunct2, THEN conjunct2, THEN conjunct2, THEN mp, OF h8,
        unfolded if_P [OF h10], THEN conjunct1]
    by (simp only: h11 h12)
  define s3 where "s3 = flowState (ms_session id c2 [] [])"
  have k4: "ms_session id c2 [] [] = Continue s3"
    unfolding c2_def s3_def by code_simp
  have k5: "filteredChoices s3 \<noteq> []"
    and k6: "\<not> Disabled (filteredChoices s3 ! nat (cursorIdx s3))"
    and k8: "\<not> isSelected (selectedChoices (ms s3)) (filteredChoices s3 ! nat (cursorIdx s3))"
    and k12: "selectedChoices (ms s3) = []"
    unfolding c2_def s3_def by code_simp+
  note t' = toggle_twice [OF h1 h2 h3 k4 k5 k6]
  have r3: "selectedChoices (ms (flowState (ms_session id c2 []
        ([] @ [press Space, press Space])))) = []"
    using t' [THEN conjunct2, THEN conjunct2, THEN conjunct1, THEN mp, OF k8]
    by (simp only: k12)
  from h2 r1 r2 r3 show ?thesis
    unfolding c1_def [symmetric] c2_def [symmetric] s1_def [symmetric]
    by (intro conjI) (simp_all only: simp_thms)
qed

section \<open>Entry checks\<close>

text \<open>
  Claim C6, as amended. With an empty choice list \<^verbatim>\<open>Render\<close> of both prompts fails
  before any frame is drawn, whatever the other fields and the keys are: with
  \<^verbatim>\<open>ErrTerminalTooSmall\<close> when the terminal has fewer than \<open>9 + min(pageSize, 0)\<close>
  rows or fewer than 50 columns, and with \<^verbatim>\<open>ErrNoSelectionChoices\<close> otherwise, after
  \<^verbatim>\<open>makeSpace\<close> has written its empty lines.
\<close>

theorem no_choices:
  assumes "choices cfg = []" and "choices cfg' = []"
  shows "ss_Render uni cfg t events =
           (if termHeight t < 9 + min (pageSizeCfg cfg) 0 \<or> termWidth t < 50
            then ([], Returns (Inl ErrTerminalTooSmall))
            else (replicate (nat (9 + min (pageSizeCfg cfg) 0)) NewLine @
                    ansiCursorUp (9 + min (pageSizeCfg cfg) 0),
                  Returns (Inl ErrNoSelectionChoices))) \<and>
         ms_Render uni cfg' t' events' =
           (if termHeight t' < 9 + min (pageSizeCfg cfg') 0 \<or> termWidth t' < 50
            then ([], Returns (Inl ErrTerminalTooSmall))
            else (replicate (nat (9 + min (pageSizeCfg cfg') 0)) NewLine @
                    ansiCursorUp (9 + min (pageSizeCfg cfg') 0),
                  Returns (Inl ErrNoSelectionChoices)))"
  using assms
  by (simp add: ss_Render_def ms_Render_def ss_init_def ms_init_def makeSpace_def Let_def)

text \<open>
  Claim C6 as stated fails on a terminal of 40 columns: the size check comes first and
  both prompts fail with \<^verbatim>\<open>ErrTerminalTooSmall\<close>.
\<close>

theorem no_choices_counterexample:
  "snd (ss_Render id
       \<lparr>choices = [], optional = False, pageSizeCfg = 10, defaultChoice = - 1,
        selectedChoice = Choice0\<rparr>
       \<lparr>termWidth = 40, termHeight = 24, termErr = False\<rparr> [])
     = Returns (Inl ErrTerminalTooSmall) \<and>
   snd (ms_Render id
       \<lparr>choices = [], optional = False, pageSizeCfg = 7, defaultChoices = [],
        minSelectedCount = 0, maxSelectedCount = 0, selectedChoices = []\<rparr>
       \<lparr>termWidth = 40, termHeight = 24, termErr = False\<rparr> [])
     = Returns (Inl ErrTerminalTooSmall)"
  by code_simp

text \<open>The theorem on a terminal of 80 columns and 24 rows.\<close>

theorem no_choices_witness:
  "choices \<lparr>choices = [], optional = False, pageSizeCfg = 10, defaultChoice = - 1,
        selectedChoice = Choice0\<rparr> = [] \<and>
   choices \<lparr>choices = [], optional = False, pageSizeCfg = 7, defaultChoices = [],
        minSelectedCount = 0, maxSelectedCount = 0, selectedChoices = []\<rparr> = [] \<and>
   ss_Render id
       \<lparr>choices = [], optional = False, pageSizeCfg = 10, defaultChoice = - 1,
        selectedChoice = Choice0\<rparr>
       \<lparr>termWidth = 80, termHeight = 24, termErr = False\<rparr> [press Space, press Enter]
     = (replicate 9 NewLine @ [CursorUp 9], Returns (Inl ErrNoSelectionChoices)) \<and>
   ms_Render id
       \<lparr>choices = [], optional = False, pageSizeCfg = 7, defaultChoices = [],
        minSelectedCount = 0, maxSelectedCount = 0, selectedChoices = []\<rparr>
       \<lparr>termWidth = 80, termHeight = 24, termErr = False\<rparr> [press Space, press Enter]
     = (replicate 9 NewLine @ [CursorUp 9], Returns (Inl ErrNoSelectionChoices))"
proof -
  define c1 where "c1 = \<lparr>choices = [], optional = False, pageSizeCfg = 10, defaultChoice = - 1,
        selectedChoice = Choice0\<rparr>"
  define c2 where "c2 = \<lparr>choices = [], optional = False, pageSizeCfg = 7, defaultChoices = [],
        minSelectedCount = 0, maxSelectedCount = 0, selectedChoices = []\<rparr>"
  define T where "T = \<lparr>termWidth = 80, termHeight = 24, termErr = False\<rparr>"
  have h1: "choices c1 = []" and h2: "choices c2 = []"
    by (simp_all add: c1_def c2_def)
  have e: "pageSizeCfg c1 = 10" "pageSizeCfg c2 = 7" "termHeight T = 24" "termWidth T = 80"
    by (simp_all add: c1_def c2_def T_def)
  note t = no_choices [OF h1 h2, of id T _ T, unfolded e]
  have "ss_Render id c1 T [press Space, press Enter]
     = (replicate 9 NewLine @ [CursorUp 9], Returns (Inl ErrNoSelectionChoices))"
    using t [THEN conjunct1] by (simp add: ansiCursorUp_def)
  moreover have "ms_Render id c2 T [press Space, press Enter]
     = (replicate 9 NewLine @ [CursorUp 9], Returns (Inl ErrNoSelectionChoices))"
    using t [THEN conjunct2] by (simp add: ansiCursorUp_def)
  ultimately show ?thesis
    using h1 h2
    unfolding c1_def [symmetric] c2_def [symmetric] T_def [symmetric]
    by (rule_tac conjI [OF _ conjI [OF _ conjI]])
qed

text \<open>
  Claim C7. \<^verbatim>\<open>makeSpace\<close> has no default of 80 columns: when the terminal call fails
  (\<^verbatim>\<open>term.GetSize\<close> then reports a size of 0 by 0), or when it reports a width of 0
  with 24 rows, \<^verbatim>\<open>makeSpace\<close> returns \<^verbatim>\<open>ErrTerminalTooSmall\<close>, and so do both prompts.
\<close>

theorem makeSpace_no_default_width:
  "makeSpace 11 \<lparr>termWidth = 0, termHeight = 0, termErr = True\<rparr>
     = ([], Some ErrTerminalTooSmall) \<and>
   makeSpace 11 \<lparr>termWidth = 0, termHeight = 24, termErr = False\<rparr>
     = ([], Some ErrTerminalTooSmall) \<and>
   snd (ss_Render id
       \<lparr>choices = [enabledChoice ''a'' ''Apple'', enabledChoice ''b'' ''Banana''],
        optional = False, pageSizeCfg = 10, defaultChoice = - 1, selectedChoice = Choice0\<rparr>
       \<lparr>termWidth = 0, termHeight = 24, termErr = False\<rparr> [press Space, press Enter])
     = Returns (Inl ErrTerminalTooSmall) \<and>
   snd (ms_Render id
       \<lparr>choices = [enabledChoice ''a'' ''Apple'', enabledChoice ''b'' ''Banana''],
        optional = False, pageSizeCfg = 7, defaultChoices = [], minSelectedCount = 0,
        maxSelectedCount = 0, selectedChoices = []\<rparr>
       \<lparr>termWidth = 0, termHeight = 24, termErr = False\<rparr> [press Space, press Enter])
     = Returns (Inl ErrTerminalTooSmall)"
  by code_simp

lemma makeSpace_narrow:
  "termWidth t < 50 \<Longrightarrow> makeSpace lines t = ([], Some ErrTerminalTooSmall)"
  by (simp add: makeSpace_def)

section \<open>Erasing the search query\<close>

text \<open>What Backspace does in search mode with a query that is not empty: the query
  loses its last byte, and the choices are filtered by what is left.\<close>

lemma ss_backspace_step:
  assumes "ss_session uni cfg w events = Continue s" and "searchMode s" and "searchQuery s \<noteq> []"
  shows "searchQuery (flowState (ss_session uni cfg w (events @ [press Backspace])))
           = butlast (searchQuery s) \<and>
         filteredChoices (flowState (ss_session uni cfg w (events @ [press Backspace])))
           = filterChoices uni (choices cfg) (butlast (searchQuery s))"
proof -
  from ss_reached [OF assms(1)] have inv: "sessionInv s" and ch: "choices (ss s) = choices cfg"
    by (simp_all add: ss_frame_def)
  have "ss_session uni cfg w (events @ [press Backspace])
        = ss_callback uni \<lparr>Code = Backspace, Runes = []\<rparr> s"
    by (simp only: ss_session_append [OF assms(1)] listen_single)
  with assms(2,3) have "ss_session uni cfg w (events @ [press Backspace])
        = redraw (ss_search uni (butlast (searchQuery s)) s)"
    by (simp add: ss_callback_def)
  with inv ch show ?thesis
    by (simp add: redraw_Continue inv_ss_search) (simp add: ss_search_def reset_sel
        resetCursorAfterFilter_def Let_def)
qed

lemma ms_backspace_step:
  assumes "ms_session uni cfg w events = Continue s" and "searchMode s" and "searchQuery s \<noteq> []"
  shows "searchQuery (flowState (ms_session uni cfg w (events @ [press Backspace])))
           = butlast (searchQuery s) \<and>
         filteredChoices (flowState (ms_session uni cfg w (events @ [press Backspace])))
           = filterChoices uni (choices cfg) (butlast (searchQuery s))"
proof -
  from ms_reached [OF assms(1)] have inv: "sessionInv s" and ch: "choices (ms s) = choices cfg"
    by (simp_all add: ms_frame_def)
  have "ms_session uni cfg w (events @ [press Backspace])
        = ms_callback uni \<lparr>Code = Backspace, Runes = []\<rparr> s"
    by (simp only: ms_session_append [OF assms(1)] listen_single)
  with assms(2,3) have "ms_session uni cfg w (events @ [press Backspace])
        = redraw (ms_search uni (butlast (searchQuery s)) s)"
    by (simp add: ms_callback_def)
  with inv ch show ?thesis
    by (simp add: redraw_Continue inv_ms_search) (simp add: ms_search_def reset_sel
        resetCursorAfterFilter_def Let_def)
qed

text \<open>
  Claim C8. Backspace removes the last byte of the query, which is not the last character
  when that character is encoded in several bytes: after Tab and the key for U+00E9 (e with an acute accent)
  the query is the two bytes C3 A9, and after Backspace it is the byte C3, not the empty
  query. It is so in both prompts.
\<close>

theorem backspace_splits_character:
  "searchQuery (flowState (ss_session id
       \<lparr>choices = [enabledChoice ''a'' ''Apple'', enabledChoice ''b'' ''Banana''],
        optional = False, pageSizeCfg = 10, defaultChoice = - 1, selectedChoice = Choice0\<rparr>
       [] [press Tab, typeRune 233]))
     = [CHR 0xC3, CHR 0xA9] \<and>
   searchQuery (flowState (ss_session id
       \<lparr>choices = [enabledChoice ''a'' ''Apple'', enabledChoice ''b'' ''Banana''],
        optional = False, pageSizeCfg = 10, defaultChoice = - 1, selectedChoice = Choice0\<rparr>
       [] [press Tab, typeRune 233, press Backspace]))
     = [CHR 0xC3] \<and>
   searchQuery (flowState (ms_session id
       \<lparr>choices = [enabledChoice ''a'' ''Apple'', enabledChoice ''b'' ''Banana''],
        optional = False, pageSizeCfg = 7, defaultChoices = [], minSelectedCount = 0,
        maxSelectedCount = 0, selectedChoices = []\<rparr>
       [] [press Tab, typeRune 233, press Backspace]))
     = [CHR 0xC3]"
  by code_simp

section \<open>Multi select: the number of selected choices\<close>

text \<open>
  Claim C1. The defaults are not checked against the limit: with three choices, the
  default indices 0, 1 and 2 and \<^verbatim>\<open>maxSelectedCount\<close> 1, the limit \<open>maxAllowed\<close> is 1,
  the first selection has three choices, and Confirm as the first key returns the three.
\<close>

theorem defaults_exceed_maxAllowed:
  "maxAllowed (ms_setup
       \<lparr>choices = [enabledChoice ''a'' ''Apple'', enabledChoice ''b'' ''Banana'',
          enabledChoice ''c'' ''Cherry''],
        optional = False, pageSizeCfg = 7, defaultChoices = [0, 1, 2], minSelectedCount = 0,
        maxSelectedCount = 1, selectedChoices = []\<rparr> []) = 1 \<and>
   length (selectedChoices (ms (ms_setup
       \<lparr>choices = [enabledChoice ''a'' ''Apple'', enabledChoice ''b'' ''Banana'',
          enabledChoice ''c'' ''Cherry''],
        optional = False, pageSizeCfg = 7, defaultChoices = [0, 1, 2], minSelectedCount = 0,
        maxSelectedCount = 1, selectedChoices = []\<rparr> []))) = 3 \<and>
   snd (ms_Render id
       \<lparr>choices = [enabledChoice ''a'' ''Apple'', enabledChoice ''b'' ''Banana'',
          enabledChoice ''c'' ''Cherry''],
        optional = False, pageSizeCfg = 7, defaultChoices = [0, 1, 2], minSelectedCount = 0,
        maxSelectedCount = 1, selectedChoices = []\<rparr>
       \<lparr>termWidth = 80, termHeight = 24, termErr = False\<rparr> [press Enter])
     = Returns (Inr [enabledChoice ''a'' ''Apple'', enabledChoice ''b'' ''Banana'',
          enabledChoice ''c'' ''Cherry''])"
  by code_simp

text \<open>Once the session runs, a toggle never takes the number of selected choices
  above \<open>maxAllowed\<close>, nor above what it was.\<close>

lemma length_toggle_selected:
  "isSelected (selectedChoices m) c \<Longrightarrow>
     length (selectedChoices (toggleSelection c m)) \<le> length (selectedChoices m)"
  by (cases "removeFirst (Value c) (selectedChoices m)")
    (auto simp: toggleSelection_def isSelected_iff removeFirst_None dest: removeFirst_Some)

lemma count_ms_space:
  assumes "sessionInv s" and "int (length (selectedChoices (ms s))) \<le> max b (maxAllowed s)"
  shows "flowInv (\<lambda>s'. int (length (selectedChoices (ms s'))) \<le> max b (maxAllowed s'))
           (ms_space s)"
proof (cases "filteredChoices s = []")
  case True
  with assms show ?thesis
    by (simp add: ms_space_def flowInv_redraw sessionInv_upd)
next
  case False
  let ?c = "filteredChoices s ! nat (cursorIdx s)"
  have "int (length (selectedChoices (toggleSelection ?c (ms s)))) \<le> max b (maxAllowed s)"
    if "isSelected (selectedChoices (ms s)) ?c \<or>
        int (length (selectedChoices (ms s))) < maxAllowed s"
    using that
  proof
    assume "isSelected (selectedChoices (ms s)) ?c"
    from length_toggle_selected [OF this] assms(2) show ?thesis by simp
  next
    assume "int (length (selectedChoices (ms s))) < maxAllowed s"
    with length_toggleSelection [of ?c "ms s"] show ?thesis by simp
  qed
  with False assms show ?thesis
    by (auto simp: ms_space_def at_inv flowInv_redraw sessionInv_upd sessionInv_ms_upd Let_def)
qed

lemma ms_search_sel:
  "ms (ms_search uni q s) = ms s" "maxAllowed (ms_search uni q s) = maxAllowed s"
  by (simp_all add: ms_search_def nav_ms)

lemma count_ms_callback:
  assumes "sessionInv s" and "int (length (selectedChoices (ms s))) \<le> max b (maxAllowed s)"
  shows "flowInv (\<lambda>s'. int (length (selectedChoices (ms s'))) \<le> max b (maxAllowed s'))
           (ms_callback uni key s)"
proof (cases "Code key")
  case CtrlC
  with assms show ?thesis by (simp add: ms_callback_def flowInv_def)
next
  case RuneKey
  with assms show ?thesis
    by (cases "Runes key")
      (simp_all add: ms_callback_def Let_def flowInv_redraw inv_navigateUp inv_navigateDown
        inv_ms_search nav_ms ms_search_sel)
next
  case Backspace
  with assms show ?thesis
    by (simp add: ms_callback_def flowInv_redraw inv_ms_search nav_ms ms_search_sel)
next
  case Enter
  with assms show ?thesis
    by (simp add: ms_callback_def ms_enter_def flowInv_redraw sessionInv_upd)
      (simp add: flowInv_def)
next
  case Space
  with assms show ?thesis
    by (simp add: ms_callback_def count_ms_space)
qed (use assms in \<open>simp_all add: ms_callback_def flowInv_redraw inv_navigateUp inv_navigateDown
      sessionInv_upd nav_ms\<close>)

lemma selection_count_bounded:
  "int (length (selectedChoices (ms (flowState (ms_session uni cfg w events)))))
     \<le> max (int (length (selectedChoices (ms (ms_setup cfg w))))) (maxAllowed (ms_init cfg))"
proof -
  let ?b = "int (length (selectedChoices (ms (ms_setup cfg w))))"
  let ?P = "\<lambda>s. sessionInv s \<and> int (length (selectedChoices (ms s))) \<le> max ?b (maxAllowed s)"
  have step: "\<And>k s. ?P s \<Longrightarrow> flowInv ?P (ms_callback uni k s)"
    by (simp add: flowInv_conj inv_ms_callback count_ms_callback)
  have "flowInv ?P (redraw (ms_setup cfg w))"
    by (simp add: flowInv_redraw inv_ms_setup sessionInv_upd)
  then have "flowInv ?P (ms_session uni cfg w events)"
  proof (cases "redraw (ms_setup cfg w)")
    case (Continue s0)
    assume "flowInv ?P (redraw (ms_setup cfg w))"
    with Continue have "?P s0" by (simp add: flowInv_def)
    then have "flowInv ?P (listen (ms_callback uni) s0 events)"
      by (intro listen_inv [where P = ?P and callback = "ms_callback uni"] step)
    with Continue show ?thesis by (simp add: ms_session_def)
  qed (simp_all add: ms_session_def)
  from flowInv_state [OF this] reach_ms_session [of cfg uni w events, THEN flowInv_state]
  show ?thesis by (simp add: ms_frame_def)
qed

end
